theory Spec2Isabelle
  imports Main "HOL-Library.Word"
begin

unbundle bit_operations_syntax

section \<open>Errors\<close>

text \<open>
  The code raises \<^verbatim>\<open>cv::Exception\<close> through \<^verbatim>\<open>CV_Error(code, msg)\<close> and
  \<^verbatim>\<open>CV_Assert(expr)\<close> (code \<^verbatim>\<open>StsAssert\<close>, the message being the expression).
  Every raise is a value \<open>Inl e\<close> of the result type. Formatted numbers inside messages
  are left out of the message text. \<open>StdLengthError\<close> is the \<^verbatim>\<open>std::length_error\<close> of a
  vector asked for more elements than it can hold. Outcomes that are not exceptions are
  values as well: undefined behaviour (a null pointer dereference, an iterator read past
  the end), a loop that has no exit, and the bound of a bounded recursion.
\<close>

datatype error =
    StsParseError string
  | StsAssert string
  | StsNotImplemented string
  | StsBadArg string
  | StsError string
  | StsObjectNotFound string
  | StsInternal string
  | StdLengthError
  | UndefinedBehaviour string
  | NonTermination
  | OutOfFuel

section \<open>The byte stream\<close>

text \<open>
  \<^verbatim>\<open>std::istream\<close> as the parser uses it: it only ever moves forward, through
  \<^verbatim>\<open>read\<close>, \<^verbatim>\<open>ignore\<close>, \<^verbatim>\<open>tellg\<close> and \<^verbatim>\<open>eof\<close>. The state is the bytes not yet
  extracted, the number of bytes extracted so far (the get position) and the two state
  bits the code can observe. The operations follow the C++11 standard: an input function
  first builds a sentry, which sets \<^verbatim>\<open>failbit\<close> and extracts nothing when the stream is
  not \<^verbatim>\<open>good()\<close>.
\<close>

type_synonym byte = "8 word"

record istream =
  rest :: "byte list"
  pos :: nat
  eofbit :: bool
  failbit :: bool

definition istream_of :: "byte list \<Rightarrow> istream" where
  "istream_of bs = \<lparr>rest = bs, pos = 0, eofbit = False, failbit = False\<rparr>"

definition good :: "istream \<Rightarrow> bool" where
  "good s = (\<not> eofbit s \<and> \<not> failbit s)"

text \<open>\<^verbatim>\<open>s.read(dst, n)\<close>: returns the bytes stored, whose number is \<^verbatim>\<open>gcount()\<close>.
  A count that is not positive stores nothing.\<close>

definition istream_read :: "int \<Rightarrow> istream \<Rightarrow> byte list \<times> istream" where
  "istream_read n s =
     (if \<not> good s then ([], s\<lparr>failbit := True\<rparr>)
      else if n \<le> 0 then ([], s)
      else if nat n \<le> length (rest s)
        then (take (nat n) (rest s), s\<lparr>rest := drop (nat n) (rest s), pos := pos s + nat n\<rparr>)
      else (rest s, s\<lparr>rest := [], pos := pos s + length (rest s),
                        eofbit := True, failbit := True\<rparr>))"

text \<open>\<^verbatim>\<open>s.ignore(n)\<close>: running into the end sets \<^verbatim>\<open>eofbit\<close> only.\<close>

definition istream_ignore :: "int \<Rightarrow> istream \<Rightarrow> istream" where
  "istream_ignore n s =
     (if \<not> good s then s\<lparr>failbit := True\<rparr>
      else if n \<le> 0 then s
      else if nat n \<le> length (rest s)
        then s\<lparr>rest := drop (nat n) (rest s), pos := pos s + nat n\<rparr>
      else s\<lparr>rest := [], pos := pos s + length (rest s), eofbit := True\<rparr>)"

text \<open>\<^verbatim>\<open>s.tellg()\<close>: \<open>-1\<close> when the stream has failed, which the sentry makes true as
  soon as \<^verbatim>\<open>eofbit\<close> is set.\<close>

definition tellg :: "istream \<Rightarrow> int \<times> istream" where
  "tellg s = (if \<not> good s then (- 1, s\<lparr>failbit := True\<rparr>) else (int (pos s), s))"

text \<open>\<^verbatim>\<open>readBinary(s, dst, numBytes)\<close> (proto\_terms.cpp): the bytes read, or the failed
  assertion that all or none of them were read.\<close>

definition readBinary :: "istream \<Rightarrow> int \<Rightarrow> error + (byte list \<times> istream)" where
  "readBinary s numBytes =
     (case istream_read numBytes s of (bs, s') \<Rightarrow>
        if int (length bs) = numBytes \<or> length bs = 0 then Inr (bs, s')
        else Inl (StsAssert ''s.gcount() == numBytes || s.gcount() == 0''))"

text \<open>
  The type \<^verbatim>\<open>int\<close> has 32 bits. \<open>to_int x\<close> is the \<^verbatim>\<open>int\<close> that the conversion \<^verbatim>\<open>(int)x\<close> of a
  stream position gives, and that a sum of two \<^verbatim>\<open>int\<close>s leaves when the sum \<open>x\<close> does not
  fit: the value modulo \<open>2^32\<close>, in two's complement.
\<close>

definition to_int :: "int \<Rightarrow> int" where
  "to_int x = (x + 2147483648) mod 4294967296 - 2147483648"

section \<open>Varint decoding\<close>

text \<open>
  The loop of \<^verbatim>\<open>ProtoValue::readVarint\<close> (proto\_terms.hpp), with its variables
  \<^verbatim>\<open>bytesRead\<close>, \<^verbatim>\<open>read_next_byte\<close>, \<^verbatim>\<open>byte\<close> and \<^verbatim>\<open>res\<close> as arguments.
\<close>

function readVarint_loop ::
  "nat \<Rightarrow> bool \<Rightarrow> byte \<Rightarrow> 64 word \<Rightarrow> istream
     \<Rightarrow> error + (nat \<times> bool \<times> byte \<times> 64 word \<times> istream)" where
  "readVarint_loop bytesRead read_next_byte b res s =
     (if bytesRead < 9 \<and> read_next_byte then
        (let next = (b AND 0x80 \<noteq> 0);
             mask = (ucast (b AND 0x7f) :: 64 word);
             res' = res OR push_bit (bytesRead * 7) mask
         in if next then
              (case readBinary s 1 of
                 Inl e \<Rightarrow> Inl e
               | Inr (bs, s') \<Rightarrow>
                   (case bs of
                      [] \<Rightarrow> Inl (StsParseError ''Unexpected end of file'')
                    | b' # _ \<Rightarrow> readVarint_loop (Suc bytesRead) next b' res' s'))
            else readVarint_loop (Suc bytesRead) next b res' s)
      else Inr (bytesRead, read_next_byte, b, res, s))"
  by pat_completeness auto
termination
  by (relation "measure (\<lambda>(bytesRead, _). 9 - bytesRead)") auto

declare readVarint_loop.simps [simp del]

text \<open>
  \<^verbatim>\<open>readVarint(s, dst, maxNumBytes)\<close>: the result is the value that \<^verbatim>\<open>memcpy\<close> leaves in
  \<^verbatim>\<open>dst\<close> (the low \<^verbatim>\<open>maxNumBytes\<close> bytes of \<^verbatim>\<open>res\<close>, on a little-endian machine), the
  returned \<^verbatim>\<open>bytesRead\<close>, and the stream. When the very first read returns no byte the
  loop is not entered and the value is 0.
\<close>

definition readVarint :: "istream \<Rightarrow> int \<Rightarrow> error + (64 word \<times> nat \<times> istream)" where
  "readVarint s maxNumBytes =
     (if \<not> (0 \<le> maxNumBytes \<and> maxNumBytes \<le> 8)
        then Inl (StsAssert ''0 <= maxNumBytes && maxNumBytes <= 8'')
      else case readBinary s 1 of
        Inl e \<Rightarrow> Inl e
      | Inr (bs, s1) \<Rightarrow>
          (case readVarint_loop 0 (bs \<noteq> []) (case bs of [] \<Rightarrow> 0 | b # _ \<Rightarrow> b) 0 s1 of
             Inl e \<Rightarrow> Inl e
           | Inr (bytesRead, read_next_byte, b, res, s2) \<Rightarrow>
               if read_next_byte then
                 (if b AND 0x80 \<noteq> 0 then Inl (StsAssert ''!read_next_byte'')
                  else Inr (take_bit (8 * nat maxNumBytes) res, bytesRead + 1, s2))
               else Inr (take_bit (8 * nat maxNumBytes) res, bytesRead, s2)))"

section \<open>Scalar values\<close>

text \<open>
  The instances of \<^verbatim>\<open>ProtoValue<T>\<close>. A value is kept as the bits of the C++ object:
  the integers as words of their width, \<^verbatim>\<open>float\<close> and \<^verbatim>\<open>double\<close> as the 32 or 64 bits
  of their object representation, \<^verbatim>\<open>bool\<close> as its one byte.
\<close>

datatype vtype = TInt32 | TUInt32 | TInt64 | TUInt64 | TFloat | TDouble | TBool | TString

datatype pvalue =
    VInt32 "32 word"
  | VUInt32 "32 word"
  | VInt64 "64 word"
  | VUInt64 "64 word"
  | VFloat "32 word"
  | VDouble "64 word"
  | VBool byte
  | VString string

fun sizeof :: "vtype \<Rightarrow> int" where
  "sizeof TInt32 = 4"
| "sizeof TUInt32 = 4"
| "sizeof TInt64 = 8"
| "sizeof TUInt64 = 8"
| "sizeof TFloat = 4"
| "sizeof TDouble = 8"
| "sizeof TBool = 1"
| "sizeof TString = 32"

text \<open>Bytes as they lie in memory on a little-endian machine, read as one word.\<close>

fun le_word :: "byte list \<Rightarrow> 'a::len word" where
  "le_word [] = 0"
| "le_word (b # bs) = ucast b OR push_bit 8 (le_word bs)"

definition char_of_byte :: "byte \<Rightarrow> char" where
  "char_of_byte b = char_of (unat b)"

text \<open>The object of type \<open>T\<close> whose memory holds the given bytes.\<close>

fun of_raw :: "vtype \<Rightarrow> byte list \<Rightarrow> pvalue" where
  "of_raw TInt32 bs = VInt32 (le_word bs)"
| "of_raw TUInt32 bs = VUInt32 (le_word bs)"
| "of_raw TInt64 bs = VInt64 (le_word bs)"
| "of_raw TUInt64 bs = VUInt64 (le_word bs)"
| "of_raw TFloat bs = VFloat (le_word bs)"
| "of_raw TDouble bs = VDouble (le_word bs)"
| "of_raw TBool bs = VBool (le_word bs)"
| "of_raw TString bs = VString (map char_of_byte bs)"

text \<open>The object of type \<open>T\<close> that \<^verbatim>\<open>memcpy(dst, &res, sizeof(T))\<close> leaves.\<close>

fun of_varint :: "vtype \<Rightarrow> 64 word \<Rightarrow> pvalue" where
  "of_varint TInt32 w = VInt32 (ucast w)"
| "of_varint TUInt32 w = VUInt32 (ucast w)"
| "of_varint TInt64 w = VInt64 w"
| "of_varint TUInt64 w = VUInt64 w"
| "of_varint T w = of_raw T []"

text \<open>\<^verbatim>\<open>valueFromString<T>("")\<close>, the value of a field built with no default and of
  every clone.\<close>

definition zero_value :: "vtype \<Rightarrow> pvalue" where
  "zero_value T = of_raw T []"

text \<open>\<^verbatim>\<open>ProtoValue<int32_t> v(s); v.value\<close>: the constructor that reads at once.\<close>

definition read_int32 :: "istream \<Rightarrow> error + (int \<times> istream)" where
  "read_int32 s =
     (case readVarint s 4 of
        Inl e \<Rightarrow> Inl e
      | Inr (w, _, s') \<Rightarrow> Inr (sint (ucast w :: 32 word), s'))"

text \<open>
  \<^verbatim>\<open>ProtoValue<T>::read(std::istream&)\<close>. The second argument is the value the
  object holds before the call: \<^verbatim>\<open>readBinary\<close> leaves it as it is when it reads
  nothing, and its result is not looked at for \<^verbatim>\<open>float\<close>, \<^verbatim>\<open>double\<close> and \<^verbatim>\<open>bool\<close>.
\<close>

fun ProtoValue_read :: "vtype \<Rightarrow> pvalue \<Rightarrow> istream \<Rightarrow> error + (pvalue \<times> istream)" where
  "ProtoValue_read T v s =
     (if T = TInt32 \<or> T = TUInt32 \<or> T = TInt64 \<or> T = TUInt64 then
        (case readVarint s (sizeof T) of
           Inl e \<Rightarrow> Inl e
         | Inr (w, _, s') \<Rightarrow> Inr (of_varint T w, s'))
      else if T = TFloat \<or> T = TDouble \<or> T = TBool then
        (case readBinary s (sizeof T) of
           Inl e \<Rightarrow> Inl e
         | Inr (bs, s') \<Rightarrow> Inr (if bs = [] then v else of_raw T bs, s'))
      else
        (case read_int32 s of
           Inl e \<Rightarrow> Inl e
         | Inr (len, s1) \<Rightarrow>
             if len < 0 then Inl (StsParseError ''Negative string length'')
             else if len \<noteq> 0 then
               (case readBinary s1 len of
                  Inl e \<Rightarrow> Inl e
                | Inr (bs, s2) \<Rightarrow>
                    if bs = [] then Inl (StsAssert ''readBinary(s, &str->operator[](0), len.value)'')
                    else Inr (of_raw TString bs, s2))
             else Inr (VString [], s1)))"

declare ProtoValue_read.simps [simp del]

section \<open>Keys\<close>

text \<open>
  \<^verbatim>\<open>parseKey(s, &tag, &wireType)\<close> (proto\_terms.cpp). The two out-parameters keep
  their old values when the key could not be read because the stream ended.
\<close>

definition parseKey :: "istream \<Rightarrow> int \<Rightarrow> int \<Rightarrow> error + (int \<times> int \<times> istream)" where
  "parseKey s tag wireType =
     (case read_int32 s of
        Inl e \<Rightarrow> Inl e
      | Inr (key, s') \<Rightarrow>
          if \<not> eofbit s' then
            (let tag' = key div 8; wireType' = key mod 8
             in if tag' \<le> 0 then Inl (StsParseError ''Unsupported tag value'')
                else if wireType' \<noteq> 0 \<and> wireType' \<noteq> 1 \<and> wireType' \<noteq> 2 \<and> wireType' \<noteq> 5
                  then Inl (StsParseError ''Unsupported wire type'')
                else Inr (tag', wireType', s'))
          else Inr (tag, wireType, s'))"

section \<open>Stream facts used by the termination proofs\<close>

definition advance :: "nat \<Rightarrow> istream \<Rightarrow> istream" where
  "advance n s = s\<lparr>rest := drop n (rest s), pos := pos s + n\<rparr>"

text \<open>The weight of a stream: it goes down with every byte extracted, and once more when
  the stream stops being \<^verbatim>\<open>good()\<close>.\<close>

definition weight :: "istream \<Rightarrow> nat" where
  "weight s = 2 * length (rest s) + (if good s then 1 else 0)"

lemma advance_0 [simp]: "advance 0 s = s"
  by (simp add: advance_def)

lemma advance_advance [simp]: "advance m (advance n s) = advance (n + m) s"
  by (simp add: advance_def add.assoc add.commute)

lemma good_advance [simp]: "good (advance n s) = good s"
  by (simp add: advance_def good_def)

lemma rest_advance [simp]: "rest (advance n s) = drop n (rest s)"
  by (simp add: advance_def)

lemma pos_advance [simp]: "pos (advance n s) = pos s + n"
  by (simp add: advance_def)

lemma eofbit_advance [simp]: "eofbit (advance n s) = eofbit s"
  by (simp add: advance_def)

lemma failbit_advance [simp]: "failbit (advance n s) = failbit s"
  by (simp add: advance_def)

lemma readBinary_one_Cons:
  "good s \<Longrightarrow> rest s = b # r \<Longrightarrow> readBinary s 1 = Inr ([b], advance 1 s)"
  by (simp add: readBinary_def istream_read_def advance_def)


lemma readBinary_bad:
  "\<not> good s \<Longrightarrow> readBinary s n = Inr ([], s\<lparr>failbit := True\<rparr>)"
  by (simp add: readBinary_def istream_read_def)

lemma readBinary_weight:
  "readBinary s n = Inr (bs, s') \<Longrightarrow> weight s' \<le> weight s"
  by (auto simp: readBinary_def istream_read_def weight_def good_def split: if_splits)

lemma readBinary_one_progress:
  "good s \<Longrightarrow> readBinary s 1 = Inr (bs, s') \<Longrightarrow> weight s' < weight s"
  by (auto simp: readBinary_def istream_read_def weight_def good_def split: if_splits)

lemma readVarint_loop_weight:
  "readVarint_loop k c b res s = Inr (k', c', b', res', s') \<Longrightarrow> weight s' \<le> weight s"
proof (induction "9 - k" arbitrary: k c b res s)
  case 0
  then show ?case by (simp add: readVarint_loop.simps [of k])
next
  case (Suc n)
  show ?case
  proof (cases "k < 9 \<and> c")
    case False
    with Suc.prems show ?thesis by (simp add: readVarint_loop.simps [of k])
  next
    case True
    note enter = True
    have n: "n = 9 - Suc k" using Suc.hyps(2) by simp
    show ?thesis
    proof (cases "b AND 0x80 \<noteq> 0")
      case False
      with enter Suc.prems
      have "readVarint_loop (Suc k) False b
              (res OR push_bit (k * 7) (ucast (b AND 0x7f))) s = Inr (k', c', b', res', s')"
        by (simp add: readVarint_loop.simps [of k] Let_def)
      with Suc.hyps(1) [OF n] show ?thesis .
    next
      case True
      with enter Suc.prems obtain bs s1 where
        rd: "readBinary s 1 = Inr (bs, s1)" and ne: "bs \<noteq> []"
        by (auto simp: readVarint_loop.simps [of k] Let_def
                 split: sum.splits list.splits)
      then obtain b1 bs1 where bs: "bs = b1 # bs1" by (cases bs) auto
      from rd have w1: "weight s1 \<le> weight s" by (rule readBinary_weight)
      from True enter Suc.prems rd bs
      have "readVarint_loop (Suc k) True b1
              (res OR push_bit (k * 7) (ucast (b AND 0x7f))) s1 =
            Inr (k', c', b', res', s')"
        by (simp add: readVarint_loop.simps [of k] Let_def)
      with Suc.hyps(1) [OF n] have "weight s' \<le> weight s1" .
      with w1 show ?thesis by simp
    qed
  qed
qed

lemma readVarint_progress:
  assumes "good s" "readVarint s n = Inr (w, k, s')"
  shows "weight s' < weight s"
proof -
  from assms(2) obtain bs s1 where rd: "readBinary s 1 = Inr (bs, s1)"
    by (auto simp: readVarint_def split: if_splits sum.splits)
  with assms(1) have w1: "weight s1 < weight s" by (rule readBinary_one_progress)
  from assms(2) rd obtain k' c' b' res' where
    "readVarint_loop 0 (bs \<noteq> []) (case bs of [] \<Rightarrow> 0 | b # _ \<Rightarrow> b) 0 s1 =
       Inr (k', c', b', res', s')"
    by (auto simp: readVarint_def split: if_splits sum.splits)
  then have "weight s' \<le> weight s1" by (rule readVarint_loop_weight)
  with w1 show ?thesis by simp
qed

lemma read_int32_progress:
  "good s \<Longrightarrow> read_int32 s = Inr (n, s') \<Longrightarrow> weight s' < weight s"
  by (auto simp: read_int32_def split: sum.splits dest: readVarint_progress)

lemma ProtoValue_read_progress:
  assumes "good s" "T \<noteq> TFloat" "T \<noteq> TDouble" "T \<noteq> TBool"
    and "ProtoValue_read T v s = Inr (v', s')"
  shows "weight s' < weight s"
proof (cases "T = TString")
  case False
  with assms show ?thesis
    by (cases T) (auto simp: ProtoValue_read.simps split: sum.splits dest: readVarint_progress)
next
  case True
  with assms(5) obtain len s1 where r1: "read_int32 s = Inr (len, s1)"
    by (auto simp: ProtoValue_read.simps split: sum.splits)
  with assms(1) have w1: "weight s1 < weight s" by (rule read_int32_progress)
  from True assms(5) r1 have "weight s' \<le> weight s1"
    by (auto simp: ProtoValue_read.simps split: sum.splits if_splits dest: readBinary_weight)
  with w1 show ?thesis by simp
qed

section \<open>Packed repeated fields\<close>

text \<open>
  The loop of \<^verbatim>\<open>ProtoPackImpl<T>::read\<close> over varint elements:
  \<^verbatim>\<open>while (s.tellg() < end) { singleValue.read(s); values.push_back(singleValue.value); }\<close>.
  Once the stream has failed, \<^verbatim>\<open>tellg\<close> answers \<open>-1\<close> for ever and \<^verbatim>\<open>singleValue.read\<close>
  reads nothing and raises nothing (lemma \<open>ProtoValue_read_failed\<close> below), so with
  \<open>-1 < end\<close> the loop has no exit: it appends zeros for as long as memory lasts. The model
  gives that outcome the value \<open>NonTermination\<close>.
\<close>

function ProtoPackImpl_loop ::
  "vtype \<Rightarrow> int \<Rightarrow> istream \<Rightarrow> pvalue list \<Rightarrow> error + (pvalue list \<times> istream)" where
  "ProtoPackImpl_loop T end s values =
     (case tellg s of (p, s0) \<Rightarrow>
        if p < end then
          (if p = - 1 \<or> T = TFloat \<or> T = TDouble \<or> T = TBool then Inl NonTermination
           else case ProtoValue_read T (zero_value T) s0 of
                  Inl e \<Rightarrow> Inl e
                | Inr (v, s1) \<Rightarrow> ProtoPackImpl_loop T end s1 (values @ [v]))
        else Inr (values, s0))"
  by pat_completeness auto
termination
  apply (relation "measure (\<lambda>(T, end, s, values). weight s)")
   apply simp
  apply (auto simp: tellg_def split: if_splits dest: ProtoValue_read_progress)
  done

declare ProtoPackImpl_loop.simps [simp del]

function chunks :: "nat \<Rightarrow> 'a list \<Rightarrow> 'a list list" where
  "chunks n xs = (if n = 0 \<or> xs = [] then [] else take n xs # chunks n (drop n xs))"
  by pat_completeness auto
termination
  by (relation "measure (\<lambda>(n, xs). length xs)") auto

declare chunks.simps [simp del]

text \<open>
  \<^verbatim>\<open>ProtoPackImpl<T>::read(std::istream&)\<close> (proto\_terms.cpp); the result is the vector
  \<^verbatim>\<open>values\<close>. In \<^verbatim>\<open>numBytes.value % sizeof(T)\<close> and \<^verbatim>\<open>numBytes.value / sizeof(T)\<close> the
  \<^verbatim>\<open>int\<close> is converted to the 64-bit unsigned \<^verbatim>\<open>size_t\<close>, so a negative length asks
  \<^verbatim>\<open>resize\<close> for more elements than a vector can hold; so does
  \<^verbatim>\<open>values.reserve(min(1, numBytes.value / 4))\<close> when the quotient is negative.

  For \<^verbatim>\<open>float\<close> and \<^verbatim>\<open>double\<close> the bytes are read straight into the storage of \<^verbatim>\<open>values\<close>;
  the address passed is that of \<^verbatim>\<open>values[0]\<close>, also when \<^verbatim>\<open>values\<close> is empty.

  For \<^verbatim>\<open>bool\<close> the vector is the bit-packed \<^verbatim>\<open>std::vector<bool>\<close>, whose \<^verbatim>\<open>values[0]\<close> is a
  proxy: \<^verbatim>\<open>const bool& begin = values[0]\<close> reads the first bit, through a null pointer
  when the vector is empty, and binds \<^verbatim>\<open>begin\<close> to a temporary \<^verbatim>\<open>bool\<close>. The bytes are read
  into that temporary of one byte, past it when more than one byte arrives, and the
  elements of \<^verbatim>\<open>values\<close> stay as \<^verbatim>\<open>resize\<close> made them.

  For the varint types the end offset is the \<^verbatim>\<open>int\<close>
  \<^verbatim>\<open>(int)s.tellg() + numBytes.value\<close>.
\<close>

definition ProtoPackImpl_read :: "vtype \<Rightarrow> istream \<Rightarrow> error + (pvalue list \<times> istream)" where
  "ProtoPackImpl_read T s =
     (case read_int32 s of
        Inl e \<Rightarrow> Inl e
      | Inr (numBytes, s1) \<Rightarrow>
          if T = TFloat \<or> T = TDouble \<or> T = TBool then
            (if (numBytes mod 2 ^ 64) mod sizeof T \<noteq> 0
               then Inl (StsAssert ''numBytes.value % sizeof(T) == 0'')
             else if numBytes < 0 then Inl StdLengthError
             else if T = TBool then
               (if numBytes = 0
                  then Inl (UndefinedBehaviour
                              ''values[0] of an empty std::vector<bool> reads through a null pointer'')
                else if 1 < length (fst (istream_read numBytes s1))
                  then Inl (UndefinedBehaviour
                              ''s.read writes past the temporary bool that begin refers to'')
                else case readBinary s1 numBytes of
                       Inl e \<Rightarrow> Inl e
                     | Inr (bs, s2) \<Rightarrow>
                         if length bs = 0
                           then Inl (StsAssert ''readBinary(s, (char*)&begin, numBytes.value)'')
                         else Inr (replicate (nat numBytes) (zero_value TBool), s2))
             else case readBinary s1 numBytes of
                    Inl e \<Rightarrow> Inl e
                  | Inr (bs, s2) \<Rightarrow>
                      if length bs = 0
                        then Inl (StsAssert ''readBinary(s, (char*)&begin, numBytes.value)'')
                      else Inr (map (of_raw T) (chunks (nat (sizeof T)) bs), s2))
          else
            (if numBytes \<le> - 4 then Inl StdLengthError
             else case tellg s1 of (p, s2) \<Rightarrow>
               (case ProtoPackImpl_loop T (to_int (to_int p + numBytes)) s2 [] of
                  Inl e \<Rightarrow> Inl e
                | Inr (values, s3) \<Rightarrow>
                    (case tellg s3 of (q, s4) \<Rightarrow>
                       if to_int q = to_int (to_int p + numBytes) then Inr (values, s4)
                       else Inl (StsAssert ''(int)s.tellg() == end'')))))"

section \<open>Varint decoding: what is read and what it is worth\<close>

text \<open>The value the wire format gives a run of bytes: seven data bits from each byte,
  the byte at index \<open>k\<close> shifted left by \<open>7 * k\<close>.\<close>

fun varint_bits :: "nat \<Rightarrow> byte list \<Rightarrow> 64 word" where
  "varint_bits k [] = 0"
| "varint_bits k (b # bs) = push_bit (k * 7) (ucast (b AND 0x7f)) OR varint_bits (Suc k) bs"

lemma readVarint_loop_terminated:
  "good s \<Longrightarrow> rest s = bs @ r \<Longrightarrow> \<forall>x\<in>set (butlast (b # bs)). x AND 0x80 \<noteq> 0 \<Longrightarrow>
   last (b # bs) AND 0x80 = 0 \<Longrightarrow> k + length bs < 9 \<Longrightarrow>
   readVarint_loop k True b res s =
     Inr (Suc (k + length bs), False, last (b # bs), res OR varint_bits k (b # bs),
          advance (length bs) s)"
proof (induction bs arbitrary: k b res s)
  case Nil
  then show ?case
    by (simp add: readVarint_loop.simps [of k] readVarint_loop.simps [of "Suc k"])
next
  case (Cons b' bs)
  have rd: "readBinary s 1 = Inr ([b'], advance 1 s)"
    using Cons.prems by (simp add: readBinary_one_Cons)
  have nb: "b AND 0x80 \<noteq> 0" using Cons.prems by simp
  have "readVarint_loop (Suc k) True b' (res OR push_bit (k * 7) (ucast (b AND 0x7f))) (advance 1 s) =
     Inr (Suc (Suc k + length bs), False, last (b' # bs),
          (res OR push_bit (k * 7) (ucast (b AND 0x7f))) OR varint_bits (Suc k) (b' # bs),
          advance (length bs) (advance 1 s))"
    using Cons.prems by (intro Cons.IH) auto
  then show ?case
    using nb rd Cons.prems(5)
    by (simp add: readVarint_loop.simps [of k] Let_def word_bw_assocs)
qed





lemma readVarint_terminated:
  assumes "good s" "rest s = bs @ b # r" "\<forall>x\<in>set bs. x AND 0x80 \<noteq> 0" "b AND 0x80 = 0"
    and "length bs < 9"
  shows "readVarint s 8 = Inr (varint_bits 0 (bs @ [b]), length bs + 1, advance (length bs + 1) s)"
proof -
  obtain c cs where cs: "bs @ [b] = c # cs" by (cases bs) auto
  then have len: "length cs = length bs" by (metis length_Cons length_append_singleton nat.inject)
  from cs assms(2) have rs: "rest s = c # cs @ r" by (metis append.assoc append_Cons append_Nil)
  with assms(1) have rd: "readBinary s 1 = Inr ([c], advance 1 s)"
    by (rule readBinary_one_Cons)
  have "readVarint_loop 0 True c 0 (advance 1 s) =
     Inr (Suc (0 + length cs), False, last (c # cs), 0 OR varint_bits 0 (c # cs),
          advance (length cs) (advance 1 s))"
  proof (rule readVarint_loop_terminated [where r = r])
    show "good (advance 1 s)" using assms(1) by simp
    show "rest (advance 1 s) = cs @ r" using rs by simp
    show "\<forall>x\<in>set (butlast (c # cs)). x AND 0x80 \<noteq> 0"
      using assms(3) cs by (metis butlast_snoc)
    show "last (c # cs) AND 0x80 = 0" using assms(4) cs by (metis last_snoc)
    show "0 + length cs < 9" using len assms(5) by simp
  qed
  with rd cs len show ?thesis
    by (simp add: readVarint_def take_bit_word_eq_self)
qed







section \<open>Scalar reads by wire-type family\<close>

lemma ProtoValue_read_integer:
  "T \<in> {TInt32, TUInt32, TInt64, TUInt64} \<Longrightarrow>
   ProtoValue_read T v s =
     (case readVarint s (sizeof T) of
        Inl e \<Rightarrow> Inl e
      | Inr (w, n, s') \<Rightarrow> Inr (of_varint T w, s'))"
  by (auto simp: ProtoValue_read.simps)

lemma ProtoValue_read_float:
  "good s \<Longrightarrow> 4 \<le> length (rest s) \<Longrightarrow>
   ProtoValue_read TFloat v s = Inr (VFloat (le_word (take 4 (rest s))), advance 4 s)"
  by (auto simp: ProtoValue_read.simps readBinary_def istream_read_def advance_def)

lemma ProtoValue_read_double:
  "good s \<Longrightarrow> 8 \<le> length (rest s) \<Longrightarrow>
   ProtoValue_read TDouble v s = Inr (VDouble (le_word (take 8 (rest s))), advance 8 s)"
  by (auto simp: ProtoValue_read.simps readBinary_def istream_read_def advance_def)

lemma ProtoValue_read_bool:
  "good s \<Longrightarrow> rest s = b # r \<Longrightarrow>
   ProtoValue_read TBool v s = Inr (VBool b, advance 1 s)"
  by (auto simp: ProtoValue_read.simps readBinary_def istream_read_def advance_def)

text \<open>
  C3 at the input where the code leaves it. A \<^verbatim>\<open>bool\<close> is read as one raw byte, whatever
  the byte: on \<open>81 00\<close>, a two-byte varint of value 1, the read takes the byte \<open>81\<close> as the
  value and leaves \<open>00\<close> in the stream, where the varint decoder reads both bytes.
\<close>

theorem C3_bool_is_read_as_one_raw_byte:
  "ProtoValue_read TBool (zero_value TBool) (istream_of [0x81, 0x00]) =
     Inr (VBool 0x81, \<lparr>rest = [0x00], pos = 1, eofbit = False, failbit = False\<rparr>) \<and>
   readVarint (istream_of [0x81, 0x00]) 8 =
     Inr (1, 2, \<lparr>rest = [], pos = 2, eofbit = False, failbit = False\<rparr>)"
  by code_simp

section \<open>Packed fields of length 0\<close>

lemma readVarint_width:
  "0 \<le> m \<Longrightarrow> m \<le> 8 \<Longrightarrow>
   readVarint s m =
     (case readVarint s 8 of
        Inl e \<Rightarrow> Inl e
      | Inr (w, n, s') \<Rightarrow> Inr (take_bit (8 * nat m) w, n, s'))"
  by (auto simp: readVarint_def take_bit_word_eq_self split: sum.splits)

lemma read_int32_zero:
  assumes "good s" "rest s = 0 # r"
  shows "read_int32 s = Inr (0, advance 1 s)"
proof -
  have "readVarint s 8 = Inr (varint_bits 0 ([] @ [0]), length ([] :: byte list) + 1,
                              advance (length ([] :: byte list) + 1) s)"
    using assms by (intro readVarint_terminated [where r = r]) auto
  then have "readVarint s 8 = Inr (0, 1, advance 1 s)" by simp
  then have "readVarint s 4 = Inr (0, 1, advance 1 s)"
    by (simp add: readVarint_width [of 4])
  then show ?thesis by (simp add: read_int32_def)
qed

lemma to_int_small: "- 2147483648 \<le> x \<Longrightarrow> x < 2147483648 \<Longrightarrow> to_int x = x"
  by (simp add: to_int_def)

lemma to_int_idem: "to_int (to_int x) = to_int x"
  by (simp add: to_int_def)

lemma to_int_le: "0 \<le> x \<Longrightarrow> to_int x \<le> x"
  unfolding to_int_def
  using zmod_le_nonneg_dividend [of "x + 2147483648" 4294967296] by simp

lemma ProtoPackImpl_loop_done:
  "tellg s = (p, s0) \<Longrightarrow> \<not> p < e \<Longrightarrow> ProtoPackImpl_loop T e s vs = Inr (vs, s0)"
  by (subst ProtoPackImpl_loop.simps) simp

lemma ProtoPackImpl_read_empty_varint:
  assumes "good s" "rest s = 0 # r" "T \<in> {TInt32, TUInt32, TInt64, TUInt64}"
  shows "ProtoPackImpl_read T s = Inr ([], advance 1 s)"
proof -
  let ?p = "int (pos (advance 1 s))"
  have tg: "tellg (advance 1 s) = (?p, advance 1 s)"
    using assms(1) by (simp add: tellg_def)
  have "\<not> ?p < to_int ?p" using to_int_le [of ?p] by simp
  with tg have "ProtoPackImpl_loop T (to_int ?p) (advance 1 s) [] = Inr ([], advance 1 s)"
    by (rule ProtoPackImpl_loop_done)
  with assms(3) read_int32_zero [OF assms(1,2)] tg show ?thesis
    by (auto simp: ProtoPackImpl_read_def to_int_idem)
qed

lemma ProtoPackImpl_read_empty_fixed:
  assumes "good s" "rest s = 0 # r" "T \<in> {TFloat, TDouble}"
  shows "ProtoPackImpl_read T s =
           Inl (StsAssert ''readBinary(s, (char*)&begin, numBytes.value)'')"
  using assms(1,3) read_int32_zero [OF assms(1,2)]
  by (auto simp: ProtoPackImpl_read_def readBinary_def istream_read_def)

lemma ProtoPackImpl_read_empty_bool:
  assumes "good s" "rest s = 0 # r"
  shows "ProtoPackImpl_read TBool s =
           Inl (UndefinedBehaviour
                  ''values[0] of an empty std::vector<bool> reads through a null pointer'')"
  using read_int32_zero [OF assms]
  by (simp add: ProtoPackImpl_read_def)

text \<open>
  C5 at the input where the code leaves it: a packed field whose declared length is 0,
  the byte \<open>00\<close>. For \<^verbatim>\<open>float\<close> and \<^verbatim>\<open>double\<close> the read fails, since
  \<^verbatim>\<open>CV_Assert(readBinary(s, (char*)&begin, numBytes.value))\<close> asserts the number of
  bytes read, which is 0. For \<^verbatim>\<open>bool\<close> the read does not get that far: \<^verbatim>\<open>values[0]\<close> of the
  empty \<^verbatim>\<open>std::vector<bool>\<close> reads through a null pointer, and no exception is raised.
  For a varint element type the read succeeds with no elements.
\<close>

theorem C5_packed_fixed_width_of_length_0_fails:
  "ProtoPackImpl_read TFloat (istream_of [0x00]) =
     Inl (StsAssert ''readBinary(s, (char*)&begin, numBytes.value)'') \<and>
   ProtoPackImpl_read TDouble (istream_of [0x00]) =
     Inl (StsAssert ''readBinary(s, (char*)&begin, numBytes.value)'') \<and>
   ProtoPackImpl_read TBool (istream_of [0x00]) =
     Inl (UndefinedBehaviour
            ''values[0] of an empty std::vector<bool> reads through a null pointer'') \<and>
   ProtoPackImpl_read TInt32 (istream_of [0x00]) =
     Inr ([], \<lparr>rest = [], pos = 1, eofbit = False, failbit = False\<rparr>)"
  by code_simp

section \<open>The layer graph\<close>

text \<open>
  A \<^verbatim>\<open>std::map\<close> with integer keys is an association list kept in key order, the order
  in which the code iterates over it; \<^verbatim>\<open>std::set<int>\<close> is a sorted list without
  repetitions. A \<^verbatim>\<open>std::map\<close> with string keys, which the code only searches, is an
  association list in the order of insertion. \<open>insert\<close> keeps the value of a key that
  is present, \<open>assign\<close> (\<^verbatim>\<open>m[k] = v\<close>) replaces it.
\<close>

fun assoc_insert :: "'k \<Rightarrow> 'v \<Rightarrow> ('k \<times> 'v) list \<Rightarrow> ('k \<times> 'v) list" where
  "assoc_insert k v [] = [(k, v)]"
| "assoc_insert k v ((k', v') # m) =
     (if k = k' then (k', v') # m else (k', v') # assoc_insert k v m)"

fun assoc_assign :: "'k \<Rightarrow> 'v \<Rightarrow> ('k \<times> 'v) list \<Rightarrow> ('k \<times> 'v) list" where
  "assoc_assign k v [] = [(k, v)]"
| "assoc_assign k v ((k', v') # m) =
     (if k = k' then (k, v) # m else (k', v') # assoc_assign k v m)"

fun map_insert :: "'k::linorder \<Rightarrow> 'v \<Rightarrow> ('k \<times> 'v) list \<Rightarrow> ('k \<times> 'v) list" where
  "map_insert k v [] = [(k, v)]"
| "map_insert k v ((k', v') # m) =
     (if k = k' then (k', v') # m
      else if k < k' then (k, v) # (k', v') # m
      else (k', v') # map_insert k v m)"

fun map_assign :: "'k::linorder \<Rightarrow> 'v \<Rightarrow> ('k \<times> 'v) list \<Rightarrow> ('k \<times> 'v) list" where
  "map_assign k v [] = [(k, v)]"
| "map_assign k v ((k', v') # m) =
     (if k = k' then (k, v) # m
      else if k < k' then (k, v) # (k', v') # m
      else (k', v') # map_assign k v m)"

fun set_insert :: "int \<Rightarrow> int list \<Rightarrow> int list" where
  "set_insert x [] = [x]"
| "set_insert x (y # ys) =
     (if x = y then y # ys else if x < y then x # y # ys else y # set_insert x ys)"

text \<open>
  \<^verbatim>\<open>Dict\<close> and \<^verbatim>\<open>LayerParams\<close> are declared in \<^verbatim>\<open>dict.hpp\<close> and \<^verbatim>\<open>dnn.hpp\<close>, which are
  not among the sources. Modelled from the spec: a parameter dictionary from names to
  values, with the layer's logging name and type; \<^verbatim>\<open>get<int>\<close> of a missing key raises.
  The constant blobs of the parameters play no part in what follows and are left out.
\<close>

datatype DictValue = DInt int | DString string

record LayerParams =
  dict :: "(string \<times> DictValue) list"
  lp_name :: string
  lp_type :: string

definition empty_params :: LayerParams where
  "empty_params = \<lparr>dict = [], lp_name = [], lp_type = []\<rparr>"

definition Dict_has :: "LayerParams \<Rightarrow> string \<Rightarrow> bool" where
  "Dict_has p k = (map_of (dict p) k \<noteq> None)"

definition Dict_set :: "string \<Rightarrow> DictValue \<Rightarrow> LayerParams \<Rightarrow> LayerParams" where
  "Dict_set k v p = p\<lparr>dict := assoc_assign k v (dict p)\<rparr>"

definition Dict_get_int :: "LayerParams \<Rightarrow> string \<Rightarrow> error + int" where
  "Dict_get_int p k =
     (case map_of (dict p) k of
        None \<Rightarrow> Inl (StsObjectNotFound ''Required argument not found into dictionary'')
      | Some (DInt i) \<Rightarrow> Inr i
      | Some (DString _) \<Rightarrow> Inl (StsAssert ''isInt()''))"

text \<open>\<^verbatim>\<open>struct LayerPin\<close> (dnn.cpp).\<close>

record LayerPin =
  lid :: int
  oid :: int

definition LayerPin_default :: LayerPin where
  "LayerPin_default = \<lparr>lid = - 1, oid = - 1\<rparr>"

definition LayerPin_valid :: "LayerPin \<Rightarrow> bool" where
  "LayerPin_valid p = (lid p \<ge> 0 \<and> oid p \<ge> 0)"

definition LayerPin_equal :: "LayerPin \<Rightarrow> LayerPin \<Rightarrow> bool" where
  "LayerPin_equal p r = (lid p = lid r \<and> oid p = oid r)"

text \<open>
  A \<^verbatim>\<open>Mat\<close> header as the allocator sees it: its shape and the address of its storage
  (0 for the empty matrix). \<^verbatim>\<open>struct LayerData\<close> (dnn.cpp): \<^verbatim>\<open>inputBlobs\<close> holds pointers to
  output blobs of other layers, kept here as the pins they point to. The layer instance
  is a parameter of the functions that call it.
\<close>

record Mat =
  mshape :: "int list"
  mdata :: nat

record LayerData =
  layer_id :: int
  name :: string
  type :: string
  params :: LayerParams
  inputBlobsId :: "LayerPin list"
  inputLayersId :: "int list"
  requiredOutputs :: "int list"
  outputBlobs :: "Mat list"
  inputBlobs :: "LayerPin list"
  internals :: "Mat list"
  flag :: int

definition LayerData_new :: "int \<Rightarrow> string \<Rightarrow> string \<Rightarrow> LayerParams \<Rightarrow> LayerData" where
  "LayerData_new i n t p =
     \<lparr>layer_id = i, name = n, type = t, params = p\<lparr>lp_name := n, lp_type := t\<rparr>,
      inputBlobsId = [], inputLayersId = [], requiredOutputs = [],
      outputBlobs = [], inputBlobs = [], internals = [], flag = 0\<rparr>"

text \<open>\<^verbatim>\<open>struct Net::Impl\<close> and its constructor. \<open>nextData\<close> is the next free storage
  address, the state of the allocator behind \<^verbatim>\<open>Mat::create\<close>.\<close>

record Net =
  layers :: "(int \<times> LayerData) list"
  layerNameToId :: "(string \<times> int) list"
  lastLayerId :: int
  netWasAllocated :: bool
  netOutputs :: "int list"
  nextData :: nat

definition Impl :: Net where
  "Impl =
     \<lparr>layers = [(0, (LayerData_new 0 ''_input'' ''__NetInputLayer__'' empty_params)
                      \<lparr>params := empty_params\<rparr>)],
      layerNameToId = [(''_input'', 0)],
      lastLayerId = 1,
      netWasAllocated = False,
      netOutputs = [],
      nextData = 1\<rparr>"

definition getLayerId :: "Net \<Rightarrow> string \<Rightarrow> int" where
  "getLayerId net layerName =
     (case map_of (layerNameToId net) layerName of Some i \<Rightarrow> i | None \<Rightarrow> - 1)"

definition getLayerData :: "Net \<Rightarrow> int \<Rightarrow> error + LayerData" where
  "getLayerData net i =
     (case map_of (layers net) i of
        None \<Rightarrow> Inl (StsObjectNotFound ''Layer with requested id not found'')
      | Some ld \<Rightarrow> Inr ld)"

text \<open>\<^verbatim>\<open>Net::addLayer\<close>.\<close>

definition addLayer :: "string \<Rightarrow> string \<Rightarrow> LayerParams \<Rightarrow> Net \<Rightarrow> error + (int \<times> Net)" where
  "addLayer n t p net =
     (if CHR ''.'' \<in> set n
        then Inl (StsBadArg ''Added layer name must not contain dot symbol'')
      else if getLayerId net n \<ge> 0
        then Inl (StsBadArg ''Layer already into net'')
      else let i = lastLayerId net + 1
           in Inr (i, net\<lparr>lastLayerId := i,
                           layerNameToId := assoc_insert n i (layerNameToId net),
                           layers := map_insert i (LayerData_new i n t p) (layers net)\<rparr>))"

text \<open>\<^verbatim>\<open>Net::Impl::addLayerInput\<close>. \<^verbatim>\<open>resize\<close> fills with default pins. A negative
  \<^verbatim>\<open>inNum\<close> indexes the vector out of range.\<close>

definition addLayerInput :: "LayerData \<Rightarrow> int \<Rightarrow> LayerPin \<Rightarrow> error + LayerData" where
  "addLayerInput ld inNum from =
     (if int (length (inputBlobsId ld)) \<le> inNum then
        Inr (ld\<lparr>inputBlobsId :=
                  (inputBlobsId ld @
                     replicate (nat (inNum + 1) - length (inputBlobsId ld)) LayerPin_default)
                  [nat inNum := from]\<rparr>)
      else if inNum < 0 then Inl (UndefinedBehaviour ''inputBlobsId[inNum] out of range'')
      else let storedFrom = inputBlobsId ld ! nat inNum
           in if LayerPin_valid storedFrom \<and> \<not> LayerPin_equal storedFrom from
                then Inl (StsError ''Input of layer already was connected'')
              else Inr (ld\<lparr>inputBlobsId := (inputBlobsId ld)[nat inNum := from]\<rparr>))"

text \<open>\<^verbatim>\<open>Net::Impl::connect\<close>: both layers are looked up first; the two may be the same
  object.\<close>

definition connect :: "int \<Rightarrow> int \<Rightarrow> int \<Rightarrow> int \<Rightarrow> Net \<Rightarrow> error + Net" where
  "connect outLayerId outNum inLayerId inNum net =
     (case getLayerData net outLayerId of
        Inl e \<Rightarrow> Inl e
      | Inr _ \<Rightarrow>
          (case getLayerData net inLayerId of
             Inl e \<Rightarrow> Inl e
           | Inr ldInp \<Rightarrow>
               (case addLayerInput ldInp inNum \<lparr>lid = outLayerId, oid = outNum\<rparr> of
                  Inl e \<Rightarrow> Inl e
                | Inr ldInp' \<Rightarrow>
                    (let net1 = net\<lparr>layers := map_assign inLayerId ldInp' (layers net)\<rparr>
                     in case getLayerData net1 outLayerId of
                          Inl e \<Rightarrow> Inl e
                        | Inr ldOut \<Rightarrow>
                            Inr (net1\<lparr>layers :=
                                   map_assign outLayerId
                                     (ldOut\<lparr>requiredOutputs :=
                                               set_insert outNum (requiredOutputs ldOut)\<rparr>)
                                     (layers net1)\<rparr>)))))"

text \<open>\<^verbatim>\<open>Net::addLayerToPrev\<close>.\<close>

definition addLayerToPrev :: "string \<Rightarrow> string \<Rightarrow> LayerParams \<Rightarrow> Net \<Rightarrow> error + (int \<times> Net)" where
  "addLayerToPrev n t p net =
     (let prvLid = lastLayerId net
      in case addLayer n t p net of
           Inl e \<Rightarrow> Inl e
         | Inr (newLid, net1) \<Rightarrow>
             (case connect prvLid 0 newLid 0 net1 of
                Inl e \<Rightarrow> Inl e
              | Inr net2 \<Rightarrow> Inr (newLid, net2)))"

text \<open>\<^verbatim>\<open>Net::getUnconnectedOutLayers\<close>.\<close>

definition getUnconnectedOutLayers :: "Net \<Rightarrow> int list" where
  "getUnconnectedOutLayers net =
     map fst (filter (\<lambda>(lid, ld). length (requiredOutputs ld) = 0) (layers net))"

section \<open>The importer of Torch module trees\<close>

text \<open>
  \<^verbatim>\<open>TorchImporter::Module\<close> (torch\_importer.cpp). The modules of the tree are never
  null: each is made by \<^verbatim>\<open>new Module\<close> when it is read.
\<close>

datatype Module =
  Module (thName: string) (apiType: string) (mparams: LayerParams) (modules: "Module list")

record importer =
  net :: Net
  moduleCounter :: int

text \<open>\<^verbatim>\<open>toString\<close> of an \<^verbatim>\<open>int\<close>: its decimal digits.\<close>

definition digit_char :: "nat \<Rightarrow> char" where
  "digit_char d = char_of (48 + d)"

function string_of_nat :: "nat \<Rightarrow> string" where
  "string_of_nat n =
     (if n < 10 then [digit_char n] else string_of_nat (n div 10) @ [digit_char (n mod 10)])"
  by pat_completeness auto
termination
  by (relation "measure id") auto

declare string_of_nat.simps [simp del]

definition toString :: "int \<Rightarrow> string" where
  "toString i = (if i < 0 then CHR ''-'' # string_of_nat (nat (- i)) else string_of_nat (nat i))"

text \<open>\<^verbatim>\<open>generateLayerName\<close>: the name, and the importer with its counter moved on.\<close>

definition generateLayerName :: "string \<Rightarrow> importer \<Rightarrow> string \<times> importer" where
  "generateLayerName label st =
     (''l'' @ toString (moduleCounter st + 1) @ ''_'' @ label,
      st\<lparr>moduleCounter := moduleCounter st + 1\<rparr>)"

text \<open>The two calls the importer makes on its net, as steps of the importer's state.\<close>

definition net_addLayer ::
  "string \<Rightarrow> string \<Rightarrow> LayerParams \<Rightarrow> importer \<Rightarrow> error + (int \<times> importer)" where
  "net_addLayer n t p st =
     (case addLayer n t p (net st) of
        Inl e \<Rightarrow> Inl e
      | Inr (i, net') \<Rightarrow> Inr (i, st\<lparr>net := net'\<rparr>))"

definition net_connect :: "int \<Rightarrow> int \<Rightarrow> int \<Rightarrow> int \<Rightarrow> importer \<Rightarrow> error + importer" where
  "net_connect a b c d st =
     (case connect a b c d (net st) of
        Inl e \<Rightarrow> Inl e
      | Inr net' \<Rightarrow> Inr (st\<lparr>net := net'\<rparr>))"

text \<open>The loop \<^verbatim>\<open>for (i = 0; i < ids.size(); i++) net.connect(ids[i], 0, mergeId, i)\<close> of the
  \<^verbatim>\<open>JoinTable\<close> and \<^verbatim>\<open>CAddTable\<close> branches.\<close>

fun connect_all :: "int list \<Rightarrow> int \<Rightarrow> int \<Rightarrow> importer \<Rightarrow> error + importer" where
  "connect_all [] mergeId i st = Inr st"
| "connect_all (x # ids) mergeId i st =
     (case net_connect x 0 mergeId i st of
        Inl e \<Rightarrow> Inl e
      | Inr st' \<Rightarrow> connect_all ids mergeId (i + 1) st')"

text \<open>The search of the \<^verbatim>\<open>SpatialMaxUnpooling\<close> branch for the pooling layer that wrote
  the indices: the first entry of \<^verbatim>\<open>addedModules\<close> that matches, if there is one.\<close>

fun find_pooling :: "(int \<times> Module) list \<Rightarrow> int \<Rightarrow> error + (int \<times> Module) option" where
  "find_pooling [] indicesBlobId = Inr None"
| "find_pooling ((i, m) # added) indicesBlobId =
     (if apiType m = ''Pooling'' \<and> Dict_has (mparams m) ''indices_blob_id'' then
        (case Dict_get_int (mparams m) ''indices_blob_id'' of
           Inl e \<Rightarrow> Inl e
         | Inr k \<Rightarrow> if k = indicesBlobId then Inr (Some (i, m))
                    else find_pooling added indicesBlobId)
      else find_pooling added indicesBlobId)"

text \<open>The six \<^verbatim>\<open>module->params.set("pool_...", poolingLayer.second->params.get<int>(...))\<close>
  of that branch, for a pooling module that exists.\<close>

fun copy_pool_params :: "(string \<times> string) list \<Rightarrow> LayerParams \<Rightarrow> LayerParams \<Rightarrow> error + LayerParams" where
  "copy_pool_params [] pool p = Inr p"
| "copy_pool_params ((dst, src) # ks) pool p =
     (case Dict_get_int pool src of
        Inl e \<Rightarrow> Inl e
      | Inr v \<Rightarrow> copy_pool_params ks pool (Dict_set dst (DInt v) p))"

definition pool_keys :: "(string \<times> string) list" where
  "pool_keys =
     [(''pool_k_h'', ''kernel_h''), (''pool_k_w'', ''kernel_w''),
      (''pool_stride_h'', ''stride_h''), (''pool_stride_w'', ''stride_w''),
      (''pool_pad_h'', ''pad_h''), (''pool_pad_w'', ''pad_w'')]"

text \<open>
  \<^verbatim>\<open>TorchImporter::fill\<close>. The state is the importer (its net and its name counter) and
  the vector \<^verbatim>\<open>addedModules\<close>; the result is the id returned. The branches of \<^verbatim>\<open>fill\<close>
  that do not call \<^verbatim>\<open>fill\<close> are definitions of their own, and so is what each container
  branch does before its loop over the children.
\<close>

type_synonym added = "(int \<times> Module) list"

definition fill_leaf ::
  "Module \<Rightarrow> importer \<Rightarrow> added \<Rightarrow> int \<Rightarrow> int \<Rightarrow> error + (int \<times> importer \<times> added)" where
  "fill_leaf m st addedModules prevLayerId prevOutNum =
     (case generateLayerName (apiType m) st of (nm, st1) \<Rightarrow>
      case net_addLayer nm (apiType m) (mparams m) st1 of Inl e \<Rightarrow> Inl e | Inr (newLayerId, st2) \<Rightarrow>
      case net_connect prevLayerId prevOutNum newLayerId 0 st2 of Inl e \<Rightarrow> Inl e | Inr st3 \<Rightarrow>
        Inr (newLayerId, st3, addedModules @ [(newLayerId, m)]))"

definition Concat_begin ::
  "Module \<Rightarrow> importer \<Rightarrow> int \<Rightarrow> int \<Rightarrow> error + (int \<times> int \<times> importer)" where
  "Concat_begin m st prevLayerId prevOutNum =
     (case Dict_get_int (mparams m) ''dimension'' of Inl e \<Rightarrow> Inl e | Inr dimension \<Rightarrow>
      let mergeParams = Dict_set ''axis'' (DInt (dimension - 1)) empty_params;
          splitParams = empty_params
      in case generateLayerName ''torchSplit'' st of (nm1, st1) \<Rightarrow>
         case net_addLayer nm1 ''Split'' splitParams st1 of Inl e \<Rightarrow> Inl e | Inr (splitId, st2) \<Rightarrow>
         case generateLayerName ''torchMerge'' st2 of (nm2, st3) \<Rightarrow>
         case net_addLayer nm2 ''Concat'' mergeParams st3 of Inl e \<Rightarrow> Inl e | Inr (mergeId, st4) \<Rightarrow>
         case net_connect prevLayerId prevOutNum splitId 0 st4 of Inl e \<Rightarrow> Inl e | Inr st5 \<Rightarrow>
           Inr (splitId, mergeId, st5))"

definition Parallel_begin ::
  "Module \<Rightarrow> importer \<Rightarrow> int \<Rightarrow> int \<Rightarrow> error + (int \<times> int \<times> int \<times> importer)" where
  "Parallel_begin m st prevLayerId prevOutNum =
     (case Dict_get_int (mparams m) ''inputDimension'' of Inl e \<Rightarrow> Inl e | Inr inputDimension \<Rightarrow>
      case Dict_get_int (mparams m) ''outputDimension'' of Inl e \<Rightarrow> Inl e | Inr outputDimension \<Rightarrow>
      let splitParams = Dict_set ''axis'' (DInt (inputDimension - 1)) empty_params;
          mergeParams = Dict_set ''axis'' (DInt (outputDimension - 1)) empty_params;
          reshapeParams = Dict_set ''num_axes'' (DInt 1)
                            (Dict_set ''axis'' (DInt (inputDimension - 1)) empty_params)
      in case generateLayerName ''torchSplit'' st of (nm1, st1) \<Rightarrow>
         case net_addLayer nm1 ''Slice'' splitParams st1 of Inl e \<Rightarrow> Inl e | Inr (splitId, st2) \<Rightarrow>
         case generateLayerName ''torchMerge'' st2 of (nm2, st3) \<Rightarrow>
         case net_addLayer nm2 ''Concat'' mergeParams st3 of Inl e \<Rightarrow> Inl e | Inr (mergeId, st4) \<Rightarrow>
         case generateLayerName ''torchReshape'' st4 of (nm3, st5) \<Rightarrow>
         case net_addLayer nm3 ''Reshape'' reshapeParams st5 of Inl e \<Rightarrow> Inl e | Inr (reshapeId, st6) \<Rightarrow>
         case net_connect prevLayerId prevOutNum splitId 0 st6 of Inl e \<Rightarrow> Inl e | Inr st7 \<Rightarrow>
           Inr (splitId, mergeId, reshapeId, st7))"

definition ConcatTable_begin ::
  "importer \<Rightarrow> int \<Rightarrow> int \<Rightarrow> error + (int \<times> importer)" where
  "ConcatTable_begin st prevLayerId prevOutNum =
     (case generateLayerName ''torchSplit'' st of (nm1, st1) \<Rightarrow>
      case net_addLayer nm1 ''Split'' empty_params st1 of Inl e \<Rightarrow> Inl e | Inr (splitId, st2) \<Rightarrow>
      case net_connect prevLayerId prevOutNum splitId 0 st2 of Inl e \<Rightarrow> Inl e | Inr st3 \<Rightarrow>
        Inr (splitId, st3))"

definition fill_JoinTable ::
  "Module \<Rightarrow> importer \<Rightarrow> added \<Rightarrow> error + (int \<times> importer \<times> added)" where
  "fill_JoinTable m st addedModules =
     (let ids = getUnconnectedOutLayers (net st)
      in case Dict_get_int (mparams m) ''dimension'' of Inl e \<Rightarrow> Inl e | Inr dimension \<Rightarrow>
         let mergeParams = Dict_set ''axis'' (DInt (dimension - 1)) empty_params
         in case generateLayerName ''torchMerge'' st of (nm, st1) \<Rightarrow>
            case net_addLayer nm ''Concat'' mergeParams st1 of Inl e \<Rightarrow> Inl e | Inr (mergeId, st2) \<Rightarrow>
            case connect_all ids mergeId 0 st2 of Inl e \<Rightarrow> Inl e | Inr st3 \<Rightarrow>
              Inr (mergeId, st3, addedModules @ [(mergeId, m)]))"

definition fill_CAddTable ::
  "Module \<Rightarrow> importer \<Rightarrow> added \<Rightarrow> error + (int \<times> importer \<times> added)" where
  "fill_CAddTable m st addedModules =
     (case generateLayerName ''torchCAddTable'' st of (nm, st1) \<Rightarrow>
      let ids = getUnconnectedOutLayers (net st1);
          params = Dict_set ''operation'' (DString ''sum'') empty_params
      in case net_addLayer nm ''Eltwise'' params st1 of Inl e \<Rightarrow> Inl e | Inr (i, st2) \<Rightarrow>
         case connect_all ids i 0 st2 of Inl e \<Rightarrow> Inl e | Inr st3 \<Rightarrow>
           Inr (i, st3, addedModules @ [(i, m)]))"

text \<open>
  In the \<^verbatim>\<open>SpatialMaxUnpooling\<close> branch \<^verbatim>\<open>poolingLayer.second\<close> is the null pointer of the
  value-initialised pair until the search finds a layer, and the parameters are copied
  through it before \<^verbatim>\<open>CV_Assert(poolingLayer.first != -1)\<close> is reached.
\<close>

definition fill_SpatialMaxUnpooling ::
  "Module \<Rightarrow> importer \<Rightarrow> added \<Rightarrow> int \<Rightarrow> error + (int \<times> importer \<times> added)" where
  "fill_SpatialMaxUnpooling m st addedModules prevLayerId =
     (if \<not> Dict_has (mparams m) ''indices_blob_id''
        then Inl (StsAssert ''module->params.has(indices_blob_id)'')
      else case Dict_get_int (mparams m) ''indices_blob_id'' of Inl e \<Rightarrow> Inl e | Inr indicesBlobId \<Rightarrow>
           case find_pooling addedModules indicesBlobId of
             Inl e \<Rightarrow> Inl e
           | Inr None \<Rightarrow> Inl (UndefinedBehaviour ''poolingLayer.second is a null pointer'')
           | Inr (Some (poolId, pool)) \<Rightarrow>
               (case copy_pool_params pool_keys (mparams pool) (mparams m) of Inl e \<Rightarrow> Inl e | Inr ps' \<Rightarrow>
                case generateLayerName ''torchMaxUnpooling'' st of (nm, st1) \<Rightarrow>
                case net_addLayer nm ''MaxUnpool'' ps' st1 of Inl e \<Rightarrow> Inl e | Inr (i, st2) \<Rightarrow>
                case net_connect prevLayerId 0 i 0 st2 of Inl e \<Rightarrow> Inl e | Inr st3 \<Rightarrow>
                if poolId = - 1 then Inl (StsAssert ''poolingLayer.first != -1'')
                else case net_connect poolId 1 i 1 st3 of Inl e \<Rightarrow> Inl e | Inr st4 \<Rightarrow>
                       Inr (i, st4, addedModules)))"

text \<open>
  The recursion. \<open>branch_of\<close> is the chain of tests by which \<^verbatim>\<open>fill\<close> picks its branch.
  Each loop over the children of a container is a function of its own:
  \<open>fill_Sequential\<close>, \<open>fill_Concat\<close> (also the loop of \<^verbatim>\<open>Parallel\<close>, which first connects
  the slice to the reshape) and \<open>fill_ConcatTable\<close>. In the \<^verbatim>\<open>ConcatTable\<close> branch \<^verbatim>\<open>newId\<close>
  is returned as the last child left it; with no child it was never written.
\<close>

datatype branch =
    Leaf | Sequential | Concat | Parallel | ConcatTable | JoinTable | CAddTable
  | SpatialMaxUnpooling | Unexpected

definition branch_of :: "Module \<Rightarrow> branch" where
  "branch_of m =
     (if length (apiType m) \<noteq> 0 then Leaf
      else if thName m = ''Sequential'' then Sequential
      else if thName m = ''Concat'' then Concat
      else if thName m = ''Parallel'' then Parallel
      else if thName m = ''ConcatTable'' then ConcatTable
      else if thName m = ''JoinTable'' then JoinTable
      else if thName m = ''CAddTable'' then CAddTable
      else if thName m = ''SpatialMaxUnpooling'' then SpatialMaxUnpooling
      else Unexpected)"

function fill :: "Module \<Rightarrow> importer \<Rightarrow> added \<Rightarrow> int \<Rightarrow> int \<Rightarrow> error + (int \<times> importer \<times> added)"
  and fill_Sequential ::
    "Module list \<Rightarrow> importer \<Rightarrow> added \<Rightarrow> int \<Rightarrow> int \<Rightarrow> error + (int \<times> importer \<times> added)"
  and fill_Concat ::
    "Module list \<Rightarrow> int option \<Rightarrow> int \<Rightarrow> int \<Rightarrow> int \<Rightarrow> importer \<Rightarrow> added
       \<Rightarrow> error + (importer \<times> added)"
  and fill_ConcatTable ::
    "Module list \<Rightarrow> int \<Rightarrow> int \<Rightarrow> int option \<Rightarrow> importer \<Rightarrow> added
       \<Rightarrow> error + (int option \<times> importer \<times> added)"
where
  "fill (Module th api ps ms) st addedModules prevLayerId prevOutNum =
     (case branch_of (Module th api ps ms) of
        Leaf \<Rightarrow> fill_leaf (Module th api ps ms) st addedModules prevLayerId prevOutNum
      | Sequential \<Rightarrow> fill_Sequential ms st addedModules prevLayerId prevOutNum
      | Concat \<Rightarrow>
          (case Concat_begin (Module th api ps ms) st prevLayerId prevOutNum of
             Inl e \<Rightarrow> Inl e
           | Inr (splitId, mergeId, st5) \<Rightarrow>
               (case fill_Concat ms None splitId mergeId 0 st5 addedModules of
                  Inl e \<Rightarrow> Inl e
                | Inr (st6, added) \<Rightarrow>
                    Inr (mergeId, st6, added @ [(mergeId, Module th api ps ms)])))
      | Parallel \<Rightarrow>
          (case Parallel_begin (Module th api ps ms) st prevLayerId prevOutNum of
             Inl e \<Rightarrow> Inl e
           | Inr (splitId, mergeId, reshapeId, st7) \<Rightarrow>
               (case fill_Concat ms (Some splitId) reshapeId mergeId 0 st7 addedModules of
                  Inl e \<Rightarrow> Inl e
                | Inr (st8, added) \<Rightarrow>
                    Inr (mergeId, st8, added @ [(mergeId, Module th api ps ms)])))
      | ConcatTable \<Rightarrow>
          (case ConcatTable_begin st prevLayerId prevOutNum of
             Inl e \<Rightarrow> Inl e
           | Inr (splitId, st3) \<Rightarrow>
               (case fill_ConcatTable ms splitId 0 None st3
                       (addedModules @ [(splitId, Module th api ps ms)]) of
                  Inl e \<Rightarrow> Inl e
                | Inr (None, st4, added) \<Rightarrow>
                    Inl (UndefinedBehaviour ''newId is returned uninitialised'')
                | Inr (Some newId, st4, added) \<Rightarrow> Inr (newId, st4, added)))
      | JoinTable \<Rightarrow> fill_JoinTable (Module th api ps ms) st addedModules
      | CAddTable \<Rightarrow> fill_CAddTable (Module th api ps ms) st addedModules
      | SpatialMaxUnpooling \<Rightarrow>
          fill_SpatialMaxUnpooling (Module th api ps ms) st addedModules prevLayerId
      | Unexpected \<Rightarrow> Inl (StsInternal ''Unexpected torch container''))"
| "fill_Sequential [] st addedModules prevLayerId prevOutNum =
     Inr (prevLayerId, st, addedModules)"
| "fill_Sequential (m # ms) st addedModules prevLayerId prevOutNum =
     (case fill m st addedModules prevLayerId prevOutNum of
        Inl e \<Rightarrow> Inl e
      | Inr (prevLayerId', st', added') \<Rightarrow> fill_Sequential ms st' added' prevLayerId' 0)"
| "fill_Concat [] sl splitId mergeId i st addedModules = Inr (st, addedModules)"
| "fill_Concat (m # ms) sl splitId mergeId i st addedModules =
     (case (case sl of
              None \<Rightarrow> Inr st
            | Some sliceId \<Rightarrow> net_connect sliceId i splitId i st) of
        Inl e \<Rightarrow> Inl e
      | Inr st0 \<Rightarrow>
          (case fill m st0 addedModules splitId i of
             Inl e \<Rightarrow> Inl e
           | Inr (newId, st1, added1) \<Rightarrow>
               (case net_connect newId 0 mergeId i st1 of
                  Inl e \<Rightarrow> Inl e
                | Inr st2 \<Rightarrow> fill_Concat ms sl splitId mergeId (i + 1) st2 added1)))"
| "fill_ConcatTable [] splitId i newId st addedModules = Inr (newId, st, addedModules)"
| "fill_ConcatTable (m # ms) splitId i newId st addedModules =
     (case fill m st addedModules splitId i of
        Inl e \<Rightarrow> Inl e
      | Inr (newId', st', added') \<Rightarrow> fill_ConcatTable ms splitId (i + 1) (Some newId') st' added')"
  by pat_completeness auto
termination
  by (relation "measure (case_sum
         (case_sum (\<lambda>(m, _). size m) (\<lambda>(ms, _). size_list size ms))
         (case_sum (\<lambda>(ms, _). size_list size ms) (\<lambda>(ms, _). size_list size ms)))")
     auto

declare fill.simps [simp del]

text \<open>\<^verbatim>\<open>TorchImporter::populateNet\<close> on a fresh net: the root module is a \<^verbatim>\<open>Sequential\<close>
  that holds what was read from the file.\<close>

definition populateNet :: "Module list \<Rightarrow> error + (int \<times> importer \<times> (int \<times> Module) list)" where
  "populateNet read =
     fill (Module ''Sequential'' [] empty_params read) \<lparr>net = Impl, moduleCounter = 0\<rparr> [] 0 0"

definition leaf :: "string \<Rightarrow> Module" where
  "leaf api = Module api api empty_params []"

section \<open>Layer ids\<close>

lemma addLayer_rejects_dot:
  "CHR ''.'' \<in> set n \<Longrightarrow>
   addLayer n t p nw = Inl (StsBadArg ''Added layer name must not contain dot symbol'')"
  by (simp add: addLayer_def)

lemma map_of_assoc_insert:
  "map_of (assoc_insert k v m) k' =
     (if k' = k \<and> map_of m k = None then Some v else map_of m k')"
  by (induction m) auto

lemma addLayer_rejects_duplicate:
  assumes "addLayer n t p nw = Inr (i, nw')" "0 \<le> lastLayerId nw"
    and "\<forall>j. map_of (layerNameToId nw) n = Some j \<longrightarrow> 0 \<le> j"
  shows "addLayer n t' p' nw' = Inl (StsBadArg ''Layer already into net'')"
proof -
  from assms(1) have nodot: "CHR ''.'' \<notin> set n" and
    fresh: "\<not> getLayerId nw n \<ge> 0" and
    i: "i = lastLayerId nw + 1" and
    names: "layerNameToId nw' = assoc_insert n i (layerNameToId nw)"
    by (auto simp: addLayer_def Let_def split: if_splits)
  have "getLayerId nw' n \<ge> 0"
  proof (cases "map_of (layerNameToId nw) n")
    case None
    then show ?thesis using names i assms(2)
      by (simp add: getLayerId_def map_of_assoc_insert)
  next
    case (Some j)
    then show ?thesis using names assms(3)
      by (simp add: getLayerId_def map_of_assoc_insert)
  qed
  with nodot show ?thesis by (simp add: addLayer_def)
qed

lemma addLayer_id:
  "addLayer n t p nw = Inr (i, nw') \<Longrightarrow> i = lastLayerId nw + 1 \<and> lastLayerId nw' = i"
  by (auto simp: addLayer_def Let_def split: if_splits)

text \<open>A run of calls of \<^verbatim>\<open>addLayer\<close> on one nw, stopping at the first that fails: the
  ids returned.\<close>

fun addLayers :: "(string \<times> string \<times> LayerParams) list \<Rightarrow> Net \<Rightarrow> error + (int list \<times> Net)" where
  "addLayers [] nw = Inr ([], nw)"
| "addLayers ((n, t, p) # specs) nw =
     (case addLayer n t p nw of
        Inl e \<Rightarrow> Inl e
      | Inr (i, nw1) \<Rightarrow>
          (case addLayers specs nw1 of
             Inl e \<Rightarrow> Inl e
           | Inr (ids, nw2) \<Rightarrow> Inr (i # ids, nw2)))"

lemma addLayers_ids:
  "addLayers specs nw = Inr (ids, nw') \<Longrightarrow>
   ids = map (\<lambda>k. lastLayerId nw + 1 + int k) [0..<length specs]"
proof (induction specs arbitrary: nw ids)
  case Nil
  then show ?case by simp
next
  case (Cons x specs)
  obtain n t p where x: "x = (n, t, p)" by (cases x) auto
  from Cons.prems x obtain i nw1 ids1 where
    a: "addLayer n t p nw = Inr (i, nw1)" and
    r: "addLayers specs nw1 = Inr (ids1, nw')" and ids: "ids = i # ids1"
    by (auto split: sum.splits)
  from a have i: "i = lastLayerId nw + 1" "lastLayerId nw1 = i" by (auto dest: addLayer_id)
  from Cons.IH [OF r] i have "ids1 = map (\<lambda>k. lastLayerId nw + 1 + int (Suc k)) [0..<length specs]"
    by (simp add: add.assoc)
  then have "ids1 = map (\<lambda>k. lastLayerId nw + 1 + int k) (map Suc [0..<length specs])"
    by simp
  with ids i show ?case
    by (simp add: upt_conv_Cons map_Suc_upt del: upt_Suc)
qed

text \<open>
  C6 at the input where the code leaves it: the first layer added to a new net gets id 2,
  since the constructor sets \<^verbatim>\<open>lastLayerId = 1\<close> and \<^verbatim>\<open>addLayer\<close> increments before it
  assigns. No layer ever gets id 1: \<^verbatim>\<open>addLayerToPrev\<close> on a new net, which connects the
  new layer to layer \<^verbatim>\<open>lastLayerId\<close>, fails for that reason.
\<close>

theorem C6_first_layer_id_is_2:
  "map_sum (\<lambda>e. e) fst (addLayer ''conv1'' ''Convolution'' empty_params Impl) = Inr 2 \<and>
   map_sum (\<lambda>e. e) fst
     (addLayers [(''conv1'', ''Convolution'', empty_params), (''relu1'', ''ReLU'', empty_params),
                 (''pool1'', ''Pooling'', empty_params)] Impl) = Inr [2, 3, 4] \<and>
   addLayerToPrev ''conv1'' ''Convolution'' empty_params Impl =
     Inl (StsObjectNotFound ''Layer with requested id not found'')"
  by code_simp

section \<open>Importing \<open>Sequential [ConcatTable [A, B], CAddTable]\<close>\<close>

lemma toString_small:
  "toString 1 = ''1''" "toString 2 = ''2''" "toString 3 = ''3''" "toString 4 = ''4''"
  by code_simp+

lemmas importer_defs =
  populateNet_def fill.simps branch_of_def fill_leaf_def ConcatTable_begin_def fill_CAddTable_def
  generateLayerName_def net_addLayer_def net_connect_def addLayer_def connect_def
  getLayerId_def getLayerData_def addLayerInput_def LayerData_new_def Impl_def
  getUnconnectedOutLayers_def LayerPin_default_def LayerPin_valid_def LayerPin_equal_def
  Dict_set_def empty_params_def toString_small Let_def

text \<open>
  C8. Let \<open>A\<close> and \<open>B\<close> be leaves: modules with an API type, here any that is not empty
  and has no dot (the type is part of the layer's name). Importing
  \<open>Sequential [ConcatTable [A, B], CAddTable]\<close> into a new net gives four layers besides the
  input: a \<open>Split\<close> (id 2) fed by the input, \<open>A\<close> (id 3) fed by output 0 of the split,
  \<open>B\<close> (id 4) fed by output 1 of the split, and an \<open>Eltwise\<close> (id 5) with operation
  \<open>sum\<close> whose inputs are exactly output 0 of \<open>A\<close> and output 0 of \<open>B\<close>, in this order.
  When the \<open>CAddTable\<close> node is reached, that is after the \<open>ConcatTable\<close> is filled, the
  layers with no required output are exactly \<open>A\<close> and \<open>B\<close>.
\<close>

theorem C8_ConcatTable_CAddTable:
  assumes "a \<noteq> []" "CHR ''.'' \<notin> set a" "b \<noteq> []" "CHR ''.'' \<notin> set b"
  shows "\<exists>st1 added1 st added.
      fill (Module ''ConcatTable'' [] pt [Module ta a pa ca, Module tb b pb cb])
        \<lparr>net = Impl, moduleCounter = 0\<rparr> [] 0 0 = Inr (4, st1, added1) \<and>
      getUnconnectedOutLayers (net st1) = [3, 4] \<and>
      populateNet [Module ''ConcatTable'' [] pt [Module ta a pa ca, Module tb b pb cb],
                   Module ''CAddTable'' [] pc []] = Inr (5, st, added) \<and>
      map fst (layers (net st)) = [0, 2, 3, 4, 5] \<and>
      map (\<lambda>(i, ld). type ld) (layers (net st)) =
        [''__NetInputLayer__'', ''Split'', a, b, ''Eltwise''] \<and>
      map (\<lambda>(i, ld). inputBlobsId ld) (layers (net st)) =
        [[], [\<lparr>lid = 0, oid = 0\<rparr>], [\<lparr>lid = 2, oid = 0\<rparr>], [\<lparr>lid = 2, oid = 1\<rparr>],
         [\<lparr>lid = 3, oid = 0\<rparr>, \<lparr>lid = 4, oid = 0\<rparr>]] \<and>
      map (\<lambda>(i, ld). dict (params ld)) (layers (net st)) =
        [[], [], dict pa, dict pb, [(''operation'', DString ''sum'')]]"
  using assms
  by (simp add: importer_defs)

theorem C8_ConcatTable_CAddTable_witness:
  "''ReLU'' \<noteq> [] \<and> CHR ''.'' \<notin> set ''ReLU'' \<and> ''Identity'' \<noteq> [] \<and> CHR ''.'' \<notin> set ''Identity'' \<and>
   (\<exists>st added.
      populateNet [Module ''ConcatTable'' [] empty_params
                     [Module ''nn.ReLU'' ''ReLU'' empty_params [],
                      Module ''nn.Identity'' ''Identity'' empty_params []],
                   Module ''CAddTable'' [] empty_params []] = Inr (5, st, added) \<and>
      map (\<lambda>(i, ld). inputBlobsId ld) (layers (net st)) =
        [[], [\<lparr>lid = 0, oid = 0\<rparr>], [\<lparr>lid = 2, oid = 0\<rparr>], [\<lparr>lid = 2, oid = 1\<rparr>],
         [\<lparr>lid = 3, oid = 0\<rparr>, \<lparr>lid = 4, oid = 0\<rparr>]])"
proof -
  have h: "''ReLU'' \<noteq> []" "CHR ''.'' \<notin> set ''ReLU''" "''Identity'' \<noteq> []"
    "CHR ''.'' \<notin> set ''Identity''"
    by simp_all
  from C8_ConcatTable_CAddTable [OF h, of empty_params "''nn.ReLU''" empty_params "[]"
      "''nn.Identity''" empty_params "[]" empty_params]
  obtain st added where
    "populateNet [Module ''ConcatTable'' [] empty_params
                     [Module ''nn.ReLU'' ''ReLU'' empty_params [],
                      Module ''nn.Identity'' ''Identity'' empty_params []],
                   Module ''CAddTable'' [] empty_params []] = Inr (5, st, added)"
    "map (\<lambda>(i, ld). inputBlobsId ld) (layers (net st)) =
        [[], [\<lparr>lid = 0, oid = 0\<rparr>], [\<lparr>lid = 2, oid = 0\<rparr>], [\<lparr>lid = 2, oid = 1\<rparr>],
         [\<lparr>lid = 3, oid = 0\<rparr>, \<lparr>lid = 4, oid = 0\<rparr>]]"
    by (elim exE conjE) (rule that; assumption)
  then have "\<exists>st added.
      populateNet [Module ''ConcatTable'' [] empty_params
                     [Module ''nn.ReLU'' ''ReLU'' empty_params [],
                      Module ''nn.Identity'' ''Identity'' empty_params []],
                   Module ''CAddTable'' [] empty_params []] = Inr (5, st, added) \<and>
      map (\<lambda>(i, ld). inputBlobsId ld) (layers (net st)) =
        [[], [\<lparr>lid = 0, oid = 0\<rparr>], [\<lparr>lid = 2, oid = 0\<rparr>], [\<lparr>lid = 2, oid = 1\<rparr>],
         [\<lparr>lid = 3, oid = 0\<rparr>, \<lparr>lid = 4, oid = 0\<rparr>]]"
    by (intro exI conjI)
  with h show ?thesis by (intro conjI)
qed

section \<open>Unpooling without its pooling\<close>

lemma fill_SpatialMaxUnpooling_no_partner:
  assumes "Dict_get_int (mparams m) ''indices_blob_id'' = Inr k"
    and "find_pooling addedModules k = Inr None"
  shows "fill_SpatialMaxUnpooling m st addedModules prevLayerId =
           Inl (UndefinedBehaviour ''poolingLayer.second is a null pointer'')"
  using assms
  by (auto simp: fill_SpatialMaxUnpooling_def Dict_has_def Dict_get_int_def
           split: option.splits DictValue.splits)

text \<open>
  C9 at the input where the code leaves it: a pooling layer that wrote indices blob 3,
  then an unpooling that asks for indices blob 7. The search finds no pooling layer, and
  the next statement reads the parameters of the pooling layer through the null pointer
  \<^verbatim>\<open>poolingLayer.second\<close>; \<^verbatim>\<open>CV_Assert(poolingLayer.first != -1)\<close> stands eight statements
  further down.
\<close>

theorem C9_unpooling_without_pooling_dereferences_null:
  "populateNet
     [Module ''SpatialMaxPooling'' ''Pooling''
        (Dict_set ''indices_blob_id'' (DInt 3)
          (Dict_set ''kernel_h'' (DInt 2) (Dict_set ''kernel_w'' (DInt 2)
          (Dict_set ''stride_h'' (DInt 2) (Dict_set ''stride_w'' (DInt 2)
          (Dict_set ''pad_h'' (DInt 0) (Dict_set ''pad_w'' (DInt 0) empty_params))))))) [],
      Module ''SpatialMaxUnpooling'' [] (Dict_set ''indices_blob_id'' (DInt 7) empty_params) []] =
   Inl (UndefinedBehaviour ''poolingLayer.second is a null pointer'')"
  by code_simp

section \<open>Fields and messages\<close>

text \<open>
  The classes under \<^verbatim>\<open>ProtobufField\<close>: \<^verbatim>\<open>ProtoValue<T>\<close> with its value, \<^verbatim>\<open>ProtoEnum\<close> with
  its flag, its table and its string value, \<^verbatim>\<open>ProtoPackImpl<T>\<close> with its values, and
  \<^verbatim>\<open>ProtobufMessage\<close> with its five maps (proto\_message.hpp). A prototype and a parsed
  instance are objects of the same class. The maps hold pointers to fields; no read
  writes through them (a read works on a clone), so they are kept as values. The code
  only searches these maps, so they are association lists in the order of insertion.
  The schemas the code builds are finite trees: a message under construction that is
  met again is cloned as it stands.
\<close>

datatype field =
    ProtoValue vtype pvalue
  | ProtoEnum bool "(int \<times> string) list" string
  | ProtoPackImpl vtype "pvalue list"
  | ProtobufMessage
      (readFields: "(string \<times> field list) list")
      (fieldsWithDefaultValue: "(string \<times> field) list")
      (fieldByTag: "(int \<times> field) list")
      (fieldByName: "(string \<times> field) list")
      (nameByTag: "(int \<times> string) list")

definition set_readFields :: "(string \<times> field list) list \<Rightarrow> field \<Rightarrow> field" where
  "set_readFields rf m =
     ProtobufMessage rf (fieldsWithDefaultValue m) (fieldByTag m) (fieldByName m) (nameByTag m)"

definition set_nameByTag :: "(int \<times> string) list \<Rightarrow> field \<Rightarrow> field" where
  "set_nameByTag nbt m =
     ProtobufMessage (readFields m) (fieldsWithDefaultValue m) (fieldByTag m) (fieldByName m) nbt"

text \<open>\<^verbatim>\<open>clone()\<close> of each class.\<close>

fun clone :: "field \<Rightarrow> field" where
  "clone (ProtoValue T v) = ProtoValue T (zero_value T)"
| "clone (ProtoEnum packed enumValues v) = ProtoEnum packed enumValues []"
| "clone (ProtoPackImpl T vs) = ProtoPackImpl T []"
| "clone (ProtobufMessage rf fd fbt fbn nbt) = ProtobufMessage [] fd fbt fbn nbt"

text \<open>\<^verbatim>\<open>ProtobufMessage::addField(field, name, tag, hasDefaultValue)\<close>.\<close>

definition addField :: "field \<Rightarrow> string \<Rightarrow> int \<Rightarrow> bool \<Rightarrow> field \<Rightarrow> field" where
  "addField f n tag hasDefaultValue m =
     ProtobufMessage
       (assoc_assign n [] (readFields m))
       (if hasDefaultValue then assoc_assign n f (fieldsWithDefaultValue m)
        else fieldsWithDefaultValue m)
       (assoc_assign tag f (fieldByTag m))
       (assoc_assign n f (fieldByName m))
       (assoc_assign tag n (nameByTag m))"

definition empty_message :: field where
  "empty_message = ProtobufMessage [] [] [] [] []"

text \<open>\<^verbatim>\<open>ProtoEnum::read(std::istream&)\<close>; the result is the string value.\<close>

definition ProtoEnum_read ::
  "bool \<Rightarrow> (int \<times> string) list \<Rightarrow> istream \<Rightarrow> error + (string \<times> istream)" where
  "ProtoEnum_read packed enumValues s =
     (case (if packed then
              (case ProtoPackImpl_read TInt32 s of
                 Inl e \<Rightarrow> Inl e
               | Inr (vs, s') \<Rightarrow>
                   (case (if vs = [] then None else Some (last vs)) of
                      Some (VInt32 w) \<Rightarrow> Inr (sint w, s')
                    | _ \<Rightarrow> Inl (StsAssert ''0 <= idx && idx < (int)values.size()'')))
            else read_int32 s) of
        Inl e \<Rightarrow> Inl e
      | Inr (i, s') \<Rightarrow>
          (case map_of enumValues i of
             None \<Rightarrow> Inl (StsParseError ''Unknown enum value'')
           | Some n \<Rightarrow> Inr (n, s')))"

text \<open>
  The part of the loop of \<^verbatim>\<open>ProtobufMessage::read\<close> that stores a clone that was read:
  \<^verbatim>\<open>nameByTag[tag]\<close> makes an entry with the empty name when the tag has none.
\<close>

definition store_field :: "int \<Rightarrow> field \<Rightarrow> field \<Rightarrow> field" where
  "store_field tag copy m =
     (let n = (case map_of (nameByTag m) tag of Some n \<Rightarrow> n | None \<Rightarrow> []);
          m1 = set_nameByTag (assoc_insert tag [] (nameByTag m)) m
      in set_readFields
           (case map_of (readFields m1) n of
              None \<Rightarrow> assoc_assign n [copy] (readFields m1)
            | Some fs \<Rightarrow> assoc_assign n (fs @ [copy]) (readFields m1))
           m1)"

text \<open>The branch of that loop for a tag with no prototype: the bytes are skipped.\<close>

definition skip_field :: "int \<Rightarrow> istream \<Rightarrow> error + istream" where
  "skip_field wireType s =
     (if wireType = 0 then
        (case readVarint s 8 of Inl e \<Rightarrow> Inl e | Inr (_, _, s') \<Rightarrow> Inr s')
      else if wireType = 1 then Inr (istream_ignore 8 s)
      else if wireType = 2 then
        (case read_int32 s of Inl e \<Rightarrow> Inl e | Inr (skip, s') \<Rightarrow> Inr (istream_ignore skip s'))
      else if wireType = 5 then Inr (istream_ignore 4 s)
      else Inr s)"

text \<open>
  The body of the loop of \<^verbatim>\<open>ProtobufMessage::read(std::istream&)\<close>, from \<^verbatim>\<open>parseKey\<close> on.
  Its first argument gives, for a tag, what \<^verbatim>\<open>it->second->clone()\<close> followed by
  \<^verbatim>\<open>copy->read(s)\<close> does, if the tag has a prototype. The result says whether the loop
  was left by \<^verbatim>\<open>break\<close>, and gives the message, \<^verbatim>\<open>tag\<close>, \<^verbatim>\<open>wireType\<close> and the stream.
\<close>

type_synonym reader = "istream \<Rightarrow> error + (field \<times> istream)"

definition ProtobufMessage_body ::
  "(int \<Rightarrow> reader option) \<Rightarrow> field \<Rightarrow> int \<Rightarrow> int \<Rightarrow> istream
     \<Rightarrow> error + (bool \<times> field \<times> int \<times> int \<times> istream)" where
  "ProtobufMessage_body readers m tag wireType s =
     (case parseKey s tag wireType of
        Inl e \<Rightarrow> Inl e
      | Inr (tag', wireType', s1) \<Rightarrow>
          if eofbit s1 then Inr (True, m, tag', wireType', s1)
          else
            (case readers tag' of
               Some rd \<Rightarrow>
                 (case rd s1 of
                    Inl e \<Rightarrow> Inl e
                  | Inr (copy, s2) \<Rightarrow> Inr (False, store_field tag' copy m, tag', wireType', s2))
             | None \<Rightarrow>
                 (case skip_field wireType' s1 of
                    Inl e \<Rightarrow> Inl e
                  | Inr s2 \<Rightarrow> Inr (False, m, tag', wireType', s2))))"

text \<open>
  The loop itself, \<^verbatim>\<open>while (s.tellg() < msgEnd)\<close>. It goes round again only after
  \<^verbatim>\<open>parseKey\<close> has read a key, so the stream has lost weight unless reading the field
  gave some back, which no reader does (lemma \<open>ProtobufMessage_body_progress\<close>); the
  definition asks for it, and stops with \<open>OutOfFuel\<close> otherwise.
\<close>

function ProtobufMessage_loop ::
  "(int \<Rightarrow> reader option) \<Rightarrow> field \<Rightarrow> int \<Rightarrow> int \<Rightarrow> int \<Rightarrow> istream \<Rightarrow> error + (field \<times> istream)"
where
  "ProtobufMessage_loop readers m msgEnd tag wireType s =
     (case tellg s of (p, s0) \<Rightarrow>
        if p < msgEnd then
          (case ProtobufMessage_body readers m tag wireType s0 of
             Inl e \<Rightarrow> Inl e
           | Inr (break, m', tag', wireType', s2) \<Rightarrow>
               if break then Inr (m', s2)
               else if weight s2 < weight s0
                 then ProtobufMessage_loop readers m' msgEnd tag' wireType' s2
               else Inl OutOfFuel)
        else Inr (m, s0))"
  by pat_completeness auto
termination
proof (relation "measure (\<lambda>(readers, m, msgEnd, tag, wireType, s). weight s)", goal_cases)
  case 1
  show ?case by simp
next
  case 2
  then show ?case
    by (auto simp: tellg_def weight_def good_def split: if_splits)
qed

declare ProtobufMessage_loop.simps [simp del]

text \<open>
  \<^verbatim>\<open>ProtobufMessage::read(std::istream&)\<close> on the message \<open>m\<close>, given the readers of its
  prototypes. \<^verbatim>\<open>tag\<close> and \<^verbatim>\<open>wireType\<close> start uninitialised; \<^verbatim>\<open>parseKey\<close> writes them
  before they are read, so the model starts them at 0. \<^verbatim>\<open>msgEnd\<close> is an \<^verbatim>\<open>int\<close>: the sum
  \<^verbatim>\<open>(int)s.tellg() + numBytes.value\<close> is taken in 32 bits, as are the two other
  conversions \<^verbatim>\<open>(int)s.tellg()\<close>; the loop compares the position itself with \<^verbatim>\<open>msgEnd\<close>.
\<close>

definition INT_MAX :: int where
  "INT_MAX = 2147483647"

definition ProtobufMessage_read_with ::
  "(int \<Rightarrow> reader option) \<Rightarrow> field \<Rightarrow> istream \<Rightarrow> error + (field \<times> istream)" where
  "ProtobufMessage_read_with readers m s =
     (let m0 = set_readFields [] m
      in case tellg s of (p, s0) \<Rightarrow>
           (let isEmbedded = (to_int p \<noteq> 0)
            in case (if isEmbedded then
                       (case read_int32 s0 of
                          Inl e \<Rightarrow> Inl e
                        | Inr (numBytes, s1) \<Rightarrow>
                            (case tellg s1 of (q, s2) \<Rightarrow>
                               Inr (to_int (to_int q + numBytes), s2)))
                     else Inr (INT_MAX, s0)) of
                 Inl e \<Rightarrow> Inl e
               | Inr (msgEnd, s2) \<Rightarrow>
                   (case ProtobufMessage_loop readers m0 msgEnd 0 0 s2 of
                      Inl e \<Rightarrow> Inl e
                    | Inr (m', s3) \<Rightarrow>
                        if \<not> isEmbedded \<or> eofbit s3 then Inr (m', s3)
                        else (case tellg s3 of (r, s4) \<Rightarrow>
                                if to_int r = msgEnd then Inr (m', s4)
                                else Inl (StsAssert
                                  ''!isEmbedded || s.eof() || (int)s.tellg() == msgEnd'')))))"

text \<open>
  \<^verbatim>\<open>it->second->clone()\<close> followed by \<^verbatim>\<open>copy->read(s)\<close>, by the class of the prototype.
\<close>

fun read_clone :: "field \<Rightarrow> reader" where
  "read_clone (ProtoValue T v) s =
     (case ProtoValue_read T (zero_value T) s of
        Inl e \<Rightarrow> Inl e
      | Inr (v', s') \<Rightarrow> Inr (ProtoValue T v', s'))"
| "read_clone (ProtoEnum packed enumValues v) s =
     (case ProtoEnum_read packed enumValues s of
        Inl e \<Rightarrow> Inl e
      | Inr (v', s') \<Rightarrow> Inr (ProtoEnum packed enumValues v', s'))"
| "read_clone (ProtoPackImpl T vs) s =
     (case ProtoPackImpl_read T s of
        Inl e \<Rightarrow> Inl e
      | Inr (vs', s') \<Rightarrow> Inr (ProtoPackImpl T vs', s'))"
| "read_clone (ProtobufMessage rf fd fbt fbn nbt) s =
     ProtobufMessage_read_with
       (map_of (map (\<lambda>(t, f). (t, read_clone f)) fbt))
       (ProtobufMessage [] fd fbt fbn nbt) s"

text \<open>\<^verbatim>\<open>ProtobufMessage::read(std::istream&)\<close> on a message object.\<close>

definition readers_of :: "field \<Rightarrow> int \<Rightarrow> reader option" where
  "readers_of m = map_of (map (\<lambda>(t, f). (t, read_clone f)) (fieldByTag m))"

definition ProtobufMessage_read :: "field \<Rightarrow> istream \<Rightarrow> error + (field \<times> istream)" where
  "ProtobufMessage_read m s = ProtobufMessage_read_with (readers_of m) m s"

section \<open>The text format\<close>

text \<open>
  \<^verbatim>\<open>valueFromString<T>\<close> (proto\_terms.cpp). For the numeric types it is the extraction
  \<^verbatim>\<open>ss >> value\<close> of the standard library, which is the parameter \<open>num\<close> here.
\<close>

definition valueFromString :: "(vtype \<Rightarrow> string \<Rightarrow> pvalue) \<Rightarrow> vtype \<Rightarrow> string \<Rightarrow> error + pvalue" where
  "valueFromString num T str =
     (if T = TString then Inr (VString str)
      else if str \<noteq> [] then
        (if T \<noteq> TBool then Inr (num T str)
         else if str = ''true'' then Inr (VBool 1)
         else if str = ''false'' then Inr (VBool 0)
         else Inl (StsParseError ''Cannot interpret boolean value''))
      else Inr (zero_value T))"

text \<open>The token iterator is the list of the tokens from it on; reading \<^verbatim>\<open>*tokenIt\<close> at the
  end of the tokens is undefined behaviour.\<close>

type_synonym treader = "string list \<Rightarrow> error + (field \<times> string list)"

definition past_the_end :: error where
  "past_the_end = UndefinedBehaviour ''*tokenIt past the end of the tokens''"

definition store_text_field :: "string \<Rightarrow> field \<Rightarrow> field \<Rightarrow> field" where
  "store_text_field fieldName copy m =
     set_readFields
       (case map_of (readFields m) fieldName of
          None \<Rightarrow> assoc_assign fieldName [copy] (readFields m)
        | Some fs \<Rightarrow> assoc_assign fieldName (fs @ [copy]) (readFields m))
       m"

text \<open>The loop of \<^verbatim>\<open>ProtobufMessage::read(std::vector<std::string>::iterator&)\<close>. As in the
  binary loop, the first argument gives what the clone of a prototype reads, here by
  name, and the definition asks that a reader does not give tokens back.\<close>

function ProtobufMessage_text_loop ::
  "(string \<Rightarrow> treader option) \<Rightarrow> field \<Rightarrow> string list \<Rightarrow> error + (field \<times> string list)" where
  "ProtobufMessage_text_loop readers m tokens =
     (case tokens of
        [] \<Rightarrow> Inl past_the_end
      | fieldName # tokens1 \<Rightarrow>
          if fieldName \<noteq> ''}'' then
            (case readers fieldName of
               None \<Rightarrow> Inl (StsNotImplemented ''Skip in text format is not implemented'')
             | Some rd \<Rightarrow>
                 (case rd tokens1 of
                    Inl e \<Rightarrow> Inl e
                  | Inr (copy, tokens2) \<Rightarrow>
                      if length tokens2 \<le> length tokens1
                        then ProtobufMessage_text_loop readers
                               (store_text_field fieldName copy m) tokens2
                      else Inl OutOfFuel))
          else Inr (m, tokens))"
  by pat_completeness auto
termination
  by (relation "measure (\<lambda>(readers, m, tokens). length tokens)") auto

declare ProtobufMessage_text_loop.simps [simp del]

definition ProtobufMessage_read_text_with ::
  "(string \<Rightarrow> treader option) \<Rightarrow> field \<Rightarrow> treader" where
  "ProtobufMessage_read_text_with readers m tokens =
     (let m0 = set_readFields [] m
      in case tokens of
           [] \<Rightarrow> Inl past_the_end
         | tok # tokens1 \<Rightarrow>
             if tok \<noteq> ''{'' then Inl (StsAssert ''*tokenIt == {'')
             else (case ProtobufMessage_text_loop readers m0 tokens1 of
                     Inl e \<Rightarrow> Inl e
                   | Inr (m', tokens2) \<Rightarrow>
                       (case tokens2 of
                          [] \<Rightarrow> Inl past_the_end
                        | tok' # tokens3 \<Rightarrow>
                            if tok' \<noteq> ''}'' then Inl (StsAssert ''*tokenIt == }'')
                            else Inr (m', tokens3))))"

text \<open>\<^verbatim>\<open>it->second->clone()\<close> followed by \<^verbatim>\<open>copy->read(tokenIt)\<close>, by the class of the
  prototype. \<^verbatim>\<open>ProtoEnum\<close> inherits the text reader of \<^verbatim>\<open>ProtoValue<std::string>\<close>.\<close>

fun read_clone_text :: "(vtype \<Rightarrow> string \<Rightarrow> pvalue) \<Rightarrow> field \<Rightarrow> treader" where
  "read_clone_text num (ProtoValue T v) tokens =
     (case tokens of
        [] \<Rightarrow> Inl past_the_end
      | tok # tokens1 \<Rightarrow>
          (case valueFromString num T tok of
             Inl e \<Rightarrow> Inl e
           | Inr v' \<Rightarrow> Inr (ProtoValue T v', tokens1)))"
| "read_clone_text num (ProtoEnum packed enumValues v) tokens =
     (case tokens of
        [] \<Rightarrow> Inl past_the_end
      | tok # tokens1 \<Rightarrow> Inr (ProtoEnum packed enumValues tok, tokens1))"
| "read_clone_text num (ProtoPackImpl T vs) tokens =
     (case tokens of
        [] \<Rightarrow> Inl past_the_end
      | tok # tokens1 \<Rightarrow>
          (case valueFromString num T tok of
             Inl e \<Rightarrow> Inl e
           | Inr v' \<Rightarrow> Inr (ProtoPackImpl T [v'], tokens1)))"
| "read_clone_text num (ProtobufMessage rf fd fbt fbn nbt) tokens =
     ProtobufMessage_read_text_with
       (map_of (map (\<lambda>(n, f). (n, read_clone_text num f)) fbn))
       (ProtobufMessage [] fd fbt fbn nbt) tokens"

definition text_readers_of :: "(vtype \<Rightarrow> string \<Rightarrow> pvalue) \<Rightarrow> field \<Rightarrow> string \<Rightarrow> treader option" where
  "text_readers_of num m = map_of (map (\<lambda>(n, f). (n, read_clone_text num f)) (fieldByName m))"

text \<open>\<^verbatim>\<open>ProtobufMessage::read(std::vector<std::string>::iterator&)\<close> on a message object.\<close>

definition ProtobufMessage_read_text :: "(vtype \<Rightarrow> string \<Rightarrow> pvalue) \<Rightarrow> field \<Rightarrow> treader" where
  "ProtobufMessage_read_text num m tokens =
     ProtobufMessage_read_text_with (text_readers_of num m) m tokens"

section \<open>What a read leaves of the message\<close>

lemma tellg_weight: "tellg s = (p, s0) \<Longrightarrow> weight s0 \<le> weight s"
  by (auto simp: tellg_def weight_def good_def split: if_splits)

lemma parseKey_progress:
  assumes "parseKey s0 t w = Inr (t', w', s1)" "\<not> eofbit s1"
  shows "weight s1 < weight s0"
proof (cases "good s0")
  case True
  with assms show ?thesis
    by (auto simp: parseKey_def Let_def split: sum.splits if_splits dest: read_int32_progress)
next
  case False
  then have "readVarint s0 4 = Inr (0, 0, s0\<lparr>failbit := True\<rparr>)"
    by (simp add: readVarint_def readBinary_bad readVarint_loop.simps [of 0])
  with assms show ?thesis
    by (auto simp: parseKey_def read_int32_def Let_def split: sum.splits if_splits)
qed

lemma set_readFields_sel [simp]:
  "readFields (set_readFields rf m) = rf"
  "fieldsWithDefaultValue (set_readFields rf m) = fieldsWithDefaultValue m"
  "fieldByTag (set_readFields rf m) = fieldByTag m"
  "fieldByName (set_readFields rf m) = fieldByName m"
  "nameByTag (set_readFields rf m) = nameByTag m"
  by (simp_all add: set_readFields_def)

lemma set_readFields_twice [simp]:
  "set_readFields rf (set_readFields rf' m) = set_readFields rf m"
  by (simp add: set_readFields_def)

lemma map_of_assoc_assign:
  "map_of (assoc_assign k v m) k' = (if k' = k then Some v else map_of m k')"
  by (induction m) auto

lemma assoc_insert_known: "map_of m k = Some v \<Longrightarrow> assoc_insert k v' m = m"
  by (induction m) (auto split: if_splits)

text \<open>Every tag that has a prototype has a name: what \<^verbatim>\<open>addField\<close> sees to.\<close>

definition names_known :: "field \<Rightarrow> bool" where
  "names_known m = (\<forall>t. map_of (fieldByTag m) t \<noteq> None \<longrightarrow> map_of (nameByTag m) t \<noteq> None)"

lemma names_known_empty: "names_known empty_message"
  by (simp add: names_known_def empty_message_def)

lemma names_known_addField: "names_known m \<Longrightarrow> names_known (addField f n tag d m)"
  by (simp add: names_known_def addField_def map_of_assoc_assign)

lemma map_of_map_snd_None:
  "(map_of (map (\<lambda>(t, f). (t, g f)) xs) k = None) = (map_of xs k = None)"
  by (induction xs) auto

lemma readers_of_known:
  "(readers_of m t = None) = (map_of (fieldByTag m) t = None)"
  by (simp add: readers_of_def map_of_map_snd_None)

lemma store_field_known:
  assumes "map_of (nameByTag m) tag \<noteq> None"
  shows "\<exists>rf'. store_field tag copy (set_readFields rf m) = set_readFields rf' m"
proof -
  from assms obtain n where n: "map_of (nameByTag m) tag = Some n" by auto
  then have "assoc_insert tag [] (nameByTag m) = nameByTag m" by (rule assoc_insert_known)
  with n show ?thesis
    by (auto simp: store_field_def set_nameByTag_def set_readFields_def Let_def
             split: option.splits)
qed

lemma ProtobufMessage_body_tables:
  assumes "ProtobufMessage_body readers (set_readFields rf m) t w s = Inr (b, m', t', w', s')"
    and "\<forall>tag. readers tag \<noteq> None \<longrightarrow> map_of (nameByTag m) tag \<noteq> None"
  shows "\<exists>rf'. m' = set_readFields rf' m"
  using assms store_field_known [of m]
  by (fastforce simp: ProtobufMessage_body_def split: sum.splits if_splits option.splits)

lemma ProtobufMessage_loop_tables:
  "ProtobufMessage_loop readers M msgEnd t w s = Inr (m', s') \<Longrightarrow>
   \<forall>tag. readers tag \<noteq> None \<longrightarrow> map_of (nameByTag m) tag \<noteq> None \<Longrightarrow>
   \<exists>rf. M = set_readFields rf m \<Longrightarrow>
   \<exists>rf'. m' = set_readFields rf' m"
proof (induction readers M msgEnd t w s rule: ProtobufMessage_loop.induct)
  case (1 readers M msgEnd tag wireType s)
  obtain p s0 where tg: "tellg s = (p, s0)" by (cases "tellg s")
  show ?case
  proof (cases "p < msgEnd")
    case False
    with "1.prems" tg show ?thesis
      by (auto simp: ProtobufMessage_loop.simps [of readers M])
  next
    case True
    with "1.prems"(1) tg obtain b M' t' w' s2 where
      body: "ProtobufMessage_body readers M tag wireType s0 = Inr (b, M', t', w', s2)"
      by (auto simp: ProtobufMessage_loop.simps [of readers M] split: sum.splits)
    from "1.prems"(3) body "1.prems"(2) have M': "\<exists>rf'. M' = set_readFields rf' m"
      by (auto dest: ProtobufMessage_body_tables)
    show ?thesis
    proof (cases b)
      case True
      with \<open>p < msgEnd\<close> "1.prems"(1) tg body M' show ?thesis
        by (auto simp: ProtobufMessage_loop.simps [of readers M])
    next
      case False
      with \<open>p < msgEnd\<close> "1.prems"(1) tg body have
        w: "weight s2 < weight s0" and
        run: "ProtobufMessage_loop readers M' msgEnd t' w' s2 = Inr (m', s')"
        by (auto simp: ProtobufMessage_loop.simps [of readers M] split: if_splits)
      from "1.IH" [OF tg [symmetric] \<open>p < msgEnd\<close> body refl refl refl refl False w
                      run "1.prems"(2) M']
      show ?thesis .
    qed
  qed
qed

lemma ProtobufMessage_read_with_tables:
  assumes "ProtobufMessage_read_with readers m s = Inr (m', s')"
    and "\<forall>tag. readers tag \<noteq> None \<longrightarrow> map_of (nameByTag m) tag \<noteq> None"
  shows "\<exists>rf'. m' = set_readFields rf' m"
proof -
  from assms(1) obtain msgEnd s2 s3 where
    "ProtobufMessage_loop readers (set_readFields [] m) msgEnd 0 0 s2 = Inr (m', s3)"
    by (auto simp: ProtobufMessage_read_with_def Let_def split: prod.splits sum.splits if_splits)
  then show ?thesis using assms(2)
    by (rule ProtobufMessage_loop_tables) auto
qed

lemma ProtobufMessage_read_tables:
  assumes "ProtobufMessage_read m s = Inr (m', s')" "names_known m"
  shows "\<exists>rf'. m' = set_readFields rf' m"
proof -
  from assms(2) have "\<forall>tag. readers_of m tag \<noteq> None \<longrightarrow> map_of (nameByTag m) tag \<noteq> None"
    by (simp add: names_known_def readers_of_known)
  with assms(1) show ?thesis
    unfolding ProtobufMessage_read_def by (rule ProtobufMessage_read_with_tables)
qed

lemma ProtobufMessage_read_clears:
  "ProtobufMessage_read (set_readFields rf m) s = ProtobufMessage_read m s"
  by (simp add: ProtobufMessage_read_def ProtobufMessage_read_with_def readers_of_def)

lemma store_text_field_tables:
  "\<exists>rf'. store_text_field n copy (set_readFields rf m) = set_readFields rf' m"
  by (auto simp: store_text_field_def split: option.splits)

lemma ProtobufMessage_text_loop_tables:
  "ProtobufMessage_text_loop readers M tokens = Inr (m', tokens') \<Longrightarrow>
   \<exists>rf. M = set_readFields rf m \<Longrightarrow>
   \<exists>rf'. m' = set_readFields rf' m"
proof (induction readers M tokens rule: ProtobufMessage_text_loop.induct)
  case (1 readers M tokens)
  show ?case
  proof (cases tokens)
    case Nil
    with "1.prems" show ?thesis
      by (simp add: ProtobufMessage_text_loop.simps [of readers M])
  next
    case (Cons fieldName tokens1)
    show ?thesis
    proof (cases "fieldName \<noteq> ''}''")
      case False
      with Cons "1.prems" show ?thesis
        by (auto simp: ProtobufMessage_text_loop.simps [of readers M])
    next
      case True
      with Cons "1.prems"(1) obtain rd copy tokens2 where
        rd: "readers fieldName = Some rd" "rd tokens1 = Inr (copy, tokens2)" and
        le: "length tokens2 \<le> length tokens1" and
        run: "ProtobufMessage_text_loop readers (store_text_field fieldName copy M) tokens2 =
                Inr (m', tokens')"
        by (auto simp: ProtobufMessage_text_loop.simps [of readers M]
                 split: option.splits sum.splits if_splits)
      from "1.prems"(2) have "\<exists>rf'. store_text_field fieldName copy M = set_readFields rf' m"
        using store_text_field_tables by auto
      with "1.IH" [OF Cons True rd(1) rd(2) refl le run] show ?thesis .
    qed
  qed
qed

lemma ProtobufMessage_read_text_tables:
  assumes "ProtobufMessage_read_text num m tokens = Inr (m', tokens')"
  shows "\<exists>rf'. m' = set_readFields rf' m"
proof -
  from assms obtain tokens1 tokens2 where
    "ProtobufMessage_text_loop (text_readers_of num m) (set_readFields [] m) tokens1 =
       Inr (m', tokens2)"
    by (auto simp: ProtobufMessage_read_text_def ProtobufMessage_read_text_with_def Let_def
             split: list.splits sum.splits if_splits)
  then show ?thesis
    by (rule ProtobufMessage_text_loop_tables) auto
qed

lemma ProtobufMessage_read_text_clears:
  "ProtobufMessage_read_text num (set_readFields rf m) tokens =
   ProtobufMessage_read_text num m tokens"
  by (simp add: ProtobufMessage_read_text_def ProtobufMessage_read_text_with_def
                text_readers_of_def)

text \<open>The schemas of the examples: \<open>M1\<close> is \<^verbatim>\<open>{ int32 x = 1 }\<close>, and \<open>M2\<close> is
  \<^verbatim>\<open>{ M1 sub = 1; string c = 2 }\<close>.\<close>

definition M1 :: field where
  "M1 = addField (ProtoValue TInt32 (VInt32 0)) ''x'' 1 False empty_message"

definition M2 :: field where
  "M2 = addField M1 ''sub'' 1 False (addField (ProtoValue TString (VString [])) ''c'' 2 False empty_message)"


text \<open>
  C10. Let \<open>m\<close> be a message in which every tag with a prototype has a name, as in every
  message built by \<^verbatim>\<open>addField\<close>. Whatever was parsed first, from bytes or from tokens,
  parsing a second input gives exactly what parsing it with \<open>m\<close> itself gives: the same
  message and the same state of the input, or the same error. More generally, a read does
  not depend on the fields read before, whatever they are.
\<close>

theorem C10_reparse:
  assumes "names_known m"
  shows "(\<forall>m1 s1'. ProtobufMessage_read m s1 = Inr (m1, s1') \<longrightarrow>
            ProtobufMessage_read m1 s2 = ProtobufMessage_read m s2 \<and>
            ProtobufMessage_read_text num m1 t2 = ProtobufMessage_read_text num m t2) \<and>
         (\<forall>m1 t1'. ProtobufMessage_read_text num m t1 = Inr (m1, t1') \<longrightarrow>
            ProtobufMessage_read m1 s2 = ProtobufMessage_read m s2 \<and>
            ProtobufMessage_read_text num m1 t2 = ProtobufMessage_read_text num m t2) \<and>
         (\<forall>rf. ProtobufMessage_read (set_readFields rf m) s2 = ProtobufMessage_read m s2 \<and>
               ProtobufMessage_read_text num (set_readFields rf m) t2 =
                 ProtobufMessage_read_text num m t2)"
proof (intro conjI allI impI)
  fix m1 s1'
  assume "ProtobufMessage_read m s1 = Inr (m1, s1')"
  with assms obtain rf where m1: "m1 = set_readFields rf m"
    by (auto dest: ProtobufMessage_read_tables)
  show "ProtobufMessage_read m1 s2 = ProtobufMessage_read m s2"
    unfolding m1 by (rule ProtobufMessage_read_clears)
  show "ProtobufMessage_read_text num m1 t2 = ProtobufMessage_read_text num m t2"
    unfolding m1 by (rule ProtobufMessage_read_text_clears)
next
  fix m1 t1'
  assume "ProtobufMessage_read_text num m t1 = Inr (m1, t1')"
  then obtain rf where m1: "m1 = set_readFields rf m"
    by (auto dest: ProtobufMessage_read_text_tables)
  show "ProtobufMessage_read m1 s2 = ProtobufMessage_read m s2"
    unfolding m1 by (rule ProtobufMessage_read_clears)
  show "ProtobufMessage_read_text num m1 t2 = ProtobufMessage_read_text num m t2"
    unfolding m1 by (rule ProtobufMessage_read_text_clears)
next
  fix rf
  show "ProtobufMessage_read (set_readFields rf m) s2 = ProtobufMessage_read m s2"
    by (rule ProtobufMessage_read_clears)
  show "ProtobufMessage_read_text num (set_readFields rf m) t2 =
          ProtobufMessage_read_text num m t2"
    by (rule ProtobufMessage_read_text_clears)
qed


lemma names_known_M1: "names_known M1"
  by (simp add: M1_def names_known_addField names_known_empty)

theorem C10_reparse_witness:
  "names_known M1 \<and>
   ProtobufMessage_read M1 (istream_of [0x08, 0x96, 0x01]) =
     Inr (set_readFields [(''x'', [ProtoValue TInt32 (VInt32 150)])] M1,
          \<lparr>rest = [], pos = 3, eofbit = True, failbit = True\<rparr>) \<and>
   ProtobufMessage_read (set_readFields [(''x'', [ProtoValue TInt32 (VInt32 150)])] M1)
       (istream_of [0x08, 0x01]) =
     ProtobufMessage_read M1 (istream_of [0x08, 0x01]) \<and>
   ProtobufMessage_read_text (\<lambda>T str. zero_value T)
       (set_readFields [(''x'', [ProtoValue TInt32 (VInt32 150)])] M1) [''{'', ''x'', ''7'', ''}''] =
     ProtobufMessage_read_text (\<lambda>T str. zero_value T) M1 [''{'', ''x'', ''7'', ''}'']"
proof -
  have first: "ProtobufMessage_read M1 (istream_of [0x08, 0x96, 0x01]) =
     Inr (set_readFields [(''x'', [ProtoValue TInt32 (VInt32 150)])] M1,
          \<lparr>rest = [], pos = 3, eofbit = True, failbit = True\<rparr>)"
    by code_simp
  from C10_reparse [OF names_known_M1, of "istream_of [0x08, 0x96, 0x01]" "istream_of [0x08, 0x01]"
      "\<lambda>T str. zero_value T" "[''{'', ''x'', ''7'', ''}'']"] first
  have "ProtobufMessage_read (set_readFields [(''x'', [ProtoValue TInt32 (VInt32 150)])] M1)
          (istream_of [0x08, 0x01]) =
        ProtobufMessage_read M1 (istream_of [0x08, 0x01]) \<and>
        ProtobufMessage_read_text (\<lambda>T str. zero_value T)
          (set_readFields [(''x'', [ProtoValue TInt32 (VInt32 150)])] M1) [''{'', ''x'', ''7'', ''}''] =
        ProtobufMessage_read_text (\<lambda>T str. zero_value T) M1 [''{'', ''x'', ''7'', ''}'']"
    by blast
  with names_known_M1 first show ?thesis by simp
qed

section \<open>The end offset of an embedded message\<close>

lemma tellg_tellg: "tellg (snd (tellg s)) = tellg s"
  by (simp add: tellg_def good_def)

text \<open>
  C4, as the code has it. A message read that starts at a position other than 0 is an
  embedded one: it reads a length and takes the position after it plus the length as the
  end offset, an \<^verbatim>\<open>int\<close>. When the read returns, either the stream has met its end
  (\<^verbatim>\<open>s.eof()\<close>) or \<^verbatim>\<open>(int)s.tellg()\<close> is exactly the end offset. When the loop ends with
  \<^verbatim>\<open>s.eof()\<close> false and \<^verbatim>\<open>(int)s.tellg()\<close> different from the end offset, the read fails
  its assertion.
\<close>

theorem C4_embedded_end_offset:
  assumes "to_int (fst (tellg s)) \<noteq> 0"
  shows "(\<forall>m' s'. ProtobufMessage_read_with readers m s = Inr (m', s') \<longrightarrow>
            (\<exists>numBytes s1. read_int32 (snd (tellg s)) = Inr (numBytes, s1) \<and>
               (eofbit s' \<or>
                to_int (fst (tellg s')) = to_int (to_int (fst (tellg s1)) + numBytes)))) \<and>
         (\<forall>numBytes s1 m' s3.
            read_int32 (snd (tellg s)) = Inr (numBytes, s1) \<and>
            ProtobufMessage_loop readers (set_readFields [] m)
              (to_int (to_int (fst (tellg s1)) + numBytes)) 0 0 (snd (tellg s1)) = Inr (m', s3) \<and>
            \<not> eofbit s3 \<and>
            to_int (fst (tellg s3)) \<noteq> to_int (to_int (fst (tellg s1)) + numBytes) \<longrightarrow>
            ProtobufMessage_read_with readers m s =
              Inl (StsAssert ''!isEmbedded || s.eof() || (int)s.tellg() == msgEnd''))"
proof (intro conjI allI impI)
  fix m' s'
  assume ok: "ProtobufMessage_read_with readers m s = Inr (m', s')"
  obtain p s0 where tg: "tellg s = (p, s0)" by (cases "tellg s")
  with assms have p: "to_int p \<noteq> 0" by simp
  from ok tg p obtain numBytes s1 where r: "read_int32 s0 = Inr (numBytes, s1)"
    by (auto simp: ProtobufMessage_read_with_def Let_def split: sum.splits)
  obtain q s2 where tg1: "tellg s1 = (q, s2)" by (cases "tellg s1")
  let ?msgEnd = "to_int (to_int q + numBytes)"
  from ok tg p r tg1 obtain s3 where
    loop: "ProtobufMessage_loop readers (set_readFields [] m) ?msgEnd 0 0 s2 = Inr (m', s3)"
    and fin: "eofbit s3 \<and> s' = s3 \<or>
              \<not> eofbit s3 \<and> snd (tellg s3) = s' \<and> to_int (fst (tellg s3)) = ?msgEnd"
    by (auto simp: ProtobufMessage_read_with_def Let_def split: sum.splits if_splits prod.splits)
  from fin have "eofbit s' \<or> to_int (fst (tellg s')) = ?msgEnd"
  proof
    assume "eofbit s3 \<and> s' = s3"
    then show ?thesis by simp
  next
    assume a: "\<not> eofbit s3 \<and> snd (tellg s3) = s' \<and> to_int (fst (tellg s3)) = ?msgEnd"
    then have "tellg s' = tellg s3" using tellg_tellg [of s3] by simp
    with a show ?thesis by simp
  qed
  with r tg tg1
  show "\<exists>numBytes s1. read_int32 (snd (tellg s)) = Inr (numBytes, s1) \<and>
          (eofbit s' \<or>
           to_int (fst (tellg s')) = to_int (to_int (fst (tellg s1)) + numBytes))"
    by auto
next
  fix numBytes s1 m' s3
  assume a: "read_int32 (snd (tellg s)) = Inr (numBytes, s1) \<and>
            ProtobufMessage_loop readers (set_readFields [] m)
              (to_int (to_int (fst (tellg s1)) + numBytes)) 0 0 (snd (tellg s1)) = Inr (m', s3) \<and>
            \<not> eofbit s3 \<and>
            to_int (fst (tellg s3)) \<noteq> to_int (to_int (fst (tellg s1)) + numBytes)"
  with assms show "ProtobufMessage_read_with readers m s =
              Inl (StsAssert ''!isEmbedded || s.eof() || (int)s.tellg() == msgEnd'')"
    by (auto simp: ProtobufMessage_read_with_def Let_def split: prod.splits)
qed

text \<open>The theorem at work: the message \<open>08 01\<close> behind its length 2, read from position 1,
  ends at its end offset 4; behind the length 1 the same read fails the assertion.\<close>

theorem C4_embedded_end_offset_witness:
  "to_int (fst (tellg (advance 1 (istream_of [0x0A, 0x02, 0x08, 0x01])))) \<noteq> 0 \<and>
   read_int32 (advance 1 (istream_of [0x0A, 0x02, 0x08, 0x01])) =
     Inr (2, \<lparr>rest = [0x08, 0x01], pos = 2, eofbit = False, failbit = False\<rparr>) \<and>
   ProtobufMessage_read M1 (advance 1 (istream_of [0x0A, 0x02, 0x08, 0x01])) =
     Inr (set_readFields [(''x'', [ProtoValue TInt32 (VInt32 1)])] M1,
          \<lparr>rest = [], pos = 4, eofbit = False, failbit = False\<rparr>) \<and>
   (\<exists>numBytes s1.
      read_int32 (snd (tellg (advance 1 (istream_of [0x0A, 0x02, 0x08, 0x01])))) =
        Inr (numBytes, s1) \<and>
      (eofbit \<lparr>rest = [], pos = 4, eofbit = False, failbit = False\<rparr> \<or>
       to_int (fst (tellg \<lparr>rest = [], pos = 4, eofbit = False, failbit = False\<rparr>)) =
         to_int (to_int (fst (tellg s1)) + numBytes))) \<and>
   ProtobufMessage_read M1 (advance 1 (istream_of [0x0A, 0x01, 0x08, 0x01])) =
     Inl (StsAssert ''!isEmbedded || s.eof() || (int)s.tellg() == msgEnd'')"
proof -
  let ?s = "advance 1 (istream_of [0x0A, 0x02, 0x08, 0x01])"
  have h: "to_int (fst (tellg ?s)) \<noteq> 0" by code_simp
  have len: "read_int32 ?s =
     Inr (2, \<lparr>rest = [0x08, 0x01], pos = 2, eofbit = False, failbit = False\<rparr>)"
    by code_simp
  have run: "ProtobufMessage_read M1 ?s =
     Inr (set_readFields [(''x'', [ProtoValue TInt32 (VInt32 1)])] M1,
          \<lparr>rest = [], pos = 4, eofbit = False, failbit = False\<rparr>)"
    by code_simp
  have short: "ProtobufMessage_read M1 (advance 1 (istream_of [0x0A, 0x01, 0x08, 0x01])) =
     Inl (StsAssert ''!isEmbedded || s.eof() || (int)s.tellg() == msgEnd'')"
    by code_simp
  from C4_embedded_end_offset [OF h, of "readers_of M1" M1] run
  have "\<exists>numBytes s1. read_int32 (snd (tellg ?s)) = Inr (numBytes, s1) \<and>
      (eofbit \<lparr>rest = [], pos = 4, eofbit = False, failbit = False\<rparr> \<or>
       to_int (fst (tellg \<lparr>rest = [], pos = 4, eofbit = False, failbit = False\<rparr>)) =
         to_int (to_int (fst (tellg s1)) + numBytes))"
    unfolding ProtobufMessage_read_def by blast
  with h len run short show ?thesis by simp
qed

text \<open>
  C4 as it is stated fails when the stream ends inside the embedded message. Read from
  position 1, the bytes \<open>05 08 01\<close> announce a message of 5 bytes, so the end offset is
  \<open>2 + 5 = 7\<close>; the stream ends after the 2 bytes of the field \<open>x = 1\<close>, and the read returns
  normally at position 4 with \<open>x = 1\<close>. The enclosing parse of \<open>0A 05 08 01\<close> succeeds too.
\<close>

theorem C4_embedded_end_offset_counterexample:
  "read_int32 (advance 1 (istream_of [0x0A, 0x05, 0x08, 0x01])) =
     Inr (5, \<lparr>rest = [0x08, 0x01], pos = 2, eofbit = False, failbit = False\<rparr>) \<and>
   ProtobufMessage_read M1 (advance 1 (istream_of [0x0A, 0x05, 0x08, 0x01])) =
     Inr (set_readFields [(''x'', [ProtoValue TInt32 (VInt32 1)])] M1,
          \<lparr>rest = [], pos = 4, eofbit = True, failbit = True\<rparr>) \<and>
   ProtobufMessage_read M2 (istream_of [0x0A, 0x05, 0x08, 0x01]) =
     Inr (set_readFields
            [(''sub'', [set_readFields [(''x'', [ProtoValue TInt32 (VInt32 1)])] M1])] M2,
          \<lparr>rest = [], pos = 4, eofbit = True, failbit = True\<rparr>)"
  by code_simp

section \<open>Shape inference and allocation\<close>

text \<open>
  A layer instance is outside the layer graph engine: \<^verbatim>\<open>getLayerInstance()\<close>, which may
  fail, and the two calls the allocator makes on the instance are parameters here, each
  a function of the layer's record. \<^verbatim>\<open>getMemoryShapes(inputs, requiredOutputs, outputs,
  internals)\<close> gets the shapes recorded so far in \<^verbatim>\<open>outputs\<close> and \<^verbatim>\<open>internals\<close> and gives
  their new values and the in-place flag; \<^verbatim>\<open>finalize(inputs, outputs)\<close> gets the input
  blobs and the output blobs and gives the output blobs back.
\<close>

type_synonym MatShape = "int list"

record layer_instance =
  getMemoryShapes ::
    "LayerData \<Rightarrow> MatShape list \<Rightarrow> int \<Rightarrow> MatShape list \<Rightarrow> MatShape list
       \<Rightarrow> error + (MatShape list \<times> MatShape list \<times> bool)"
  finalize :: "LayerData \<Rightarrow> Mat list \<Rightarrow> Mat list \<Rightarrow> error + Mat list"

text \<open>\<^verbatim>\<open>struct LayerShapes\<close> and \<^verbatim>\<open>LayersShapesMap\<close> (dnn.cpp).\<close>

record LayerShapes =
  ls_in :: "MatShape list"
  ls_out :: "MatShape list"
  ls_internal :: "MatShape list"
  ls_inplace :: bool

definition LayerShapes_default :: LayerShapes where
  "LayerShapes_default = \<lparr>ls_in = [], ls_out = [], ls_internal = [], ls_inplace = False\<rparr>"

type_synonym LayersShapesMap = "(int \<times> LayerShapes) list"

text \<open>\<^verbatim>\<open>inOutShapes[id]\<close>: the entry, made first if it is not there.\<close>

definition shapes_at :: "LayersShapesMap \<Rightarrow> int \<Rightarrow> LayerShapes" where
  "shapes_at m i = (case map_of m i of Some x \<Rightarrow> x | None \<Rightarrow> LayerShapes_default)"

text \<open>
  \<^verbatim>\<open>Mat\<close> is declared outside the sources. Modelled from the spec: the empty matrix has
  the empty shape and no storage; \<^verbatim>\<open>total\<close> is the element count, the product of the
  dimensions, 0 for the empty shape; \<^verbatim>\<open>create\<close> gives the matrix new storage;
  \<^verbatim>\<open>reshape\<close> gives a view of the same storage.
\<close>

definition Mat_empty :: Mat where
  "Mat_empty = \<lparr>mshape = [], mdata = 0\<rparr>"

definition total :: "MatShape \<Rightarrow> int" where
  "total sh = (if sh = [] then 0 else prod_list sh)"

definition resize_to :: "nat \<Rightarrow> 'a \<Rightarrow> 'a list \<Rightarrow> 'a list" where
  "resize_to n x xs = take n xs @ replicate (n - length xs) x"

text \<open>
  \<^verbatim>\<open>Net::Impl::getLayerShapesRecursively\<close>, with the loop over the input pins as
  \<open>input_shapes\<close>. The recursion follows the pins and does not end on a graph with a
  cycle, so it is bounded by a depth. \<^verbatim>\<open>layers[id]\<close> of an id that is not in the map
  makes a layer with no type, whose instance cannot be created.
\<close>

fun getLayerShapesRecursively ::
    "nat \<Rightarrow> layer_instance \<Rightarrow> Net \<Rightarrow> int \<Rightarrow> LayersShapesMap \<Rightarrow> error + LayersShapesMap"
  and input_shapes ::
    "nat \<Rightarrow> layer_instance \<Rightarrow> Net \<Rightarrow> int \<Rightarrow> LayerPin list \<Rightarrow> LayersShapesMap
       \<Rightarrow> error + LayersShapesMap"
where
  "getLayerShapesRecursively 0 li nw i inOutShapes = Inl OutOfFuel"
| "getLayerShapesRecursively (Suc depth) li nw i inOutShapes =
     (case map_of (layers nw) i of
        None \<Rightarrow> Inl (StsError ''Can't create layer'')
      | Some ld \<Rightarrow>
          (let m0 = map_insert i LayerShapes_default inOutShapes
           in case (if ls_in (shapes_at m0 i) = []
                      then input_shapes depth li nw i (inputBlobsId ld) m0
                    else Inr m0) of
                Inl e \<Rightarrow> Inl e
              | Inr m1 \<Rightarrow>
                  (case getMemoryShapes li ld (ls_in (shapes_at m1 i))
                          (int (length (requiredOutputs ld)))
                          (ls_out (shapes_at m1 i)) (ls_internal (shapes_at m1 i)) of
                     Inl e \<Rightarrow> Inl e
                   | Inr (os, ints, inplace) \<Rightarrow>
                       Inr (map_assign i
                              ((shapes_at m1 i)\<lparr>ls_out := os, ls_internal := ints,
                                                 ls_inplace := inplace\<rparr>) m1))))"
| "input_shapes depth li nw i [] inOutShapes = Inr inOutShapes"
| "input_shapes depth li nw i (pin # pins) inOutShapes =
     (case (if map_of inOutShapes (lid pin) = None \<or> ls_out (shapes_at inOutShapes (lid pin)) = []
              then getLayerShapesRecursively depth li nw (lid pin) inOutShapes
            else Inr inOutShapes) of
        Inl e \<Rightarrow> Inl e
      | Inr m1 \<Rightarrow>
          (let m2 = map_insert (lid pin) LayerShapes_default m1;
               out = ls_out (shapes_at m2 (lid pin))
           in if oid pin < 0 \<or> int (length out) \<le> oid pin
                then Inl (UndefinedBehaviour ''out[oid] out of range'')
              else input_shapes depth li nw i pins
                     (map_assign i
                        ((shapes_at m2 i)\<lparr>ls_in := ls_in (shapes_at m2 i) @ [out ! nat (oid pin)]\<rparr>)
                        m2)))"



text \<open>
  The step of \<^verbatim>\<open>allocateLayer\<close> for output blob \<open>i\<close>: nothing happens when the recorded
  shape is the inferred one; otherwise the blob becomes a view of input \<open>i\<close> for an in-place
  layer, and gets new storage for any other. The result is the blob and the next free
  storage address. \<open>inputs\<close> are the blobs the input pointers point to.
\<close>

definition allocate_output ::
  "bool \<Rightarrow> Mat list \<Rightarrow> nat \<Rightarrow> nat \<Rightarrow> MatShape \<Rightarrow> Mat \<Rightarrow> nat \<Rightarrow> error + (Mat \<times> nat)" where
  "allocate_output inplace inputs noutputs i outShape blob next =
     (if mshape blob \<noteq> outShape then
        (if inplace then
           (if length inputs \<noteq> noutputs
              then Inl (StsAssert ''ld.inputBlobs.size() == ld.outputBlobs.size()'')
            else if total (mshape (inputs ! i)) \<noteq> total outShape
              then Inl (StsAssert ''ld.inputBlobs[i]->total() == total(outShapes[i])'')
            else Inr (\<lparr>mshape = outShape, mdata = mdata (inputs ! i)\<rparr>, next))
         else Inr (\<lparr>mshape = outShape, mdata = next\<rparr>, next + 1))
      else Inr (blob, next))"

fun allocate_outputs ::
  "bool \<Rightarrow> Mat list \<Rightarrow> nat \<Rightarrow> nat \<Rightarrow> MatShape list \<Rightarrow> Mat list \<Rightarrow> nat
     \<Rightarrow> error + (Mat list \<times> nat)" where
  "allocate_outputs inplace inputs noutputs i [] blobs next = Inr (blobs, next)"
| "allocate_outputs inplace inputs noutputs i (sh # shs) blobs next =
     (case allocate_output inplace inputs noutputs i sh (blobs ! i) next of
        Inl e \<Rightarrow> Inl e
      | Inr (b, next') \<Rightarrow>
          allocate_outputs inplace inputs noutputs (Suc i) shs (blobs[i := b]) next')"

text \<open>The same for the internal blobs.\<close>

fun allocate_internals :: "nat \<Rightarrow> MatShape list \<Rightarrow> Mat list \<Rightarrow> nat \<Rightarrow> Mat list \<times> nat" where
  "allocate_internals i [] blobs next = (blobs, next)"
| "allocate_internals i (sh # shs) blobs next =
     (if mshape (blobs ! i) \<noteq> sh \<and> total sh \<noteq> 0
        then allocate_internals (Suc i) shs (blobs[i := \<lparr>mshape = sh, mdata = next\<rparr>]) (next + 1)
      else allocate_internals (Suc i) shs blobs next)"

text \<open>The blob an input pointer points to, \<^verbatim>\<open>&layers[from.lid].outputBlobs[from.oid]\<close>.\<close>

definition blob_at :: "Net \<Rightarrow> LayerPin \<Rightarrow> error + Mat" where
  "blob_at nw pin =
     (case map_of (layers nw) (lid pin) of
        None \<Rightarrow> Inl (UndefinedBehaviour ''input pointer into an empty outputBlobs'')
      | Some ld \<Rightarrow>
          if oid pin < 0 \<or> int (length (outputBlobs ld)) \<le> oid pin
            then Inl (UndefinedBehaviour ''input pointer past the end of outputBlobs'')
          else Inr (outputBlobs ld ! nat (oid pin)))"

fun blobs_at :: "Net \<Rightarrow> LayerPin list \<Rightarrow> error + Mat list" where
  "blobs_at nw [] = Inr []"
| "blobs_at nw (pin # pins) =
     (case blob_at nw pin of
        Inl e \<Rightarrow> Inl e
      | Inr b \<Rightarrow> (case blobs_at nw pins of Inl e \<Rightarrow> Inl e | Inr bs \<Rightarrow> Inr (b # bs)))"

text \<open>
  What \<^verbatim>\<open>allocateLayer\<close> does with the layer once its parents are allocated: it binds the
  inputs, sizes the outputs and the internals, calls \<^verbatim>\<open>finalize\<close> and sets the flag.
\<close>

definition allocate_own :: "layer_instance \<Rightarrow> LayersShapesMap \<Rightarrow> int \<Rightarrow> Net \<Rightarrow> error + Net" where
  "allocate_own li layersShapes i nw =
     (case map_of (layers nw) i of
        None \<Rightarrow> Inl (UndefinedBehaviour ''layers[lid] of an id that is not in the map'')
      | Some ld \<Rightarrow>
          if \<not> list_all LayerPin_valid (inputBlobsId ld) then Inl (StsAssert ''from.valid()'')
          else
            (case map_of layersShapes i of
               None \<Rightarrow> Inl (StsAssert ''layerShapesIt != layersShapes.end()'')
             | Some sh \<Rightarrow>
                 if length (requiredOutputs ld) > length (ls_out sh)
                   then Inl (StsAssert ''ld.requiredOutputs.size() <= outShapes.size()'')
                 else
                   (case blobs_at nw (inputBlobsId ld) of
                      Inl e \<Rightarrow> Inl e
                    | Inr inputs \<Rightarrow>
                        (let n = max 1 (length (ls_out sh));
                             blobs0 = resize_to n Mat_empty (outputBlobs ld)
                         in case allocate_outputs (ls_inplace sh) inputs n 0 (ls_out sh) blobs0
                                   (nextData nw) of
                              Inl e \<Rightarrow> Inl e
                            | Inr (blobs1, next1) \<Rightarrow>
                                (case allocate_internals 0 (ls_internal sh)
                                        (resize_to (length (ls_internal sh)) Mat_empty
                                           (internals ld)) next1 of
                                   (ints1, next2) \<Rightarrow>
                                     (case finalize li ld inputs blobs1 of
                                        Inl e \<Rightarrow> Inl e
                                      | Inr blobs2 \<Rightarrow>
                                          Inr (nw\<lparr>layers :=
                                                  map_assign i
                                                    (ld\<lparr>inputBlobs := inputBlobsId ld,
                                                        outputBlobs := blobs2,
                                                        internals := ints1,
                                                        flag := 1\<rparr>) (layers nw),
                                                nextData := next2\<rparr>)))))))"

text \<open>
  \<^verbatim>\<open>Net::Impl::allocateLayer\<close>, with the loop over the parents as \<open>allocate_parents\<close>. The
  recursion follows the parents and does not end on a graph with a cycle, so it is
  bounded by a depth.
\<close>

fun set_inserts :: "int list \<Rightarrow> int list \<Rightarrow> int list" where
  "set_inserts [] s = s"
| "set_inserts (x # xs) s = set_inserts xs (set_insert x s)"

fun allocateLayer ::
    "nat \<Rightarrow> layer_instance \<Rightarrow> LayersShapesMap \<Rightarrow> int \<Rightarrow> Net \<Rightarrow> error + Net"
  and allocate_parents ::
    "nat \<Rightarrow> layer_instance \<Rightarrow> LayersShapesMap \<Rightarrow> int list \<Rightarrow> Net \<Rightarrow> error + Net"
where
  "allocateLayer 0 li layersShapes i nw = Inl OutOfFuel"
| "allocateLayer (Suc depth) li layersShapes i nw =
     (case map_of (layers nw) i of
        None \<Rightarrow> Inl (UndefinedBehaviour ''layers[lid] of an id that is not in the map'')
      | Some ld \<Rightarrow>
          if flag ld \<noteq> 0 then Inr nw
          else
            (let parents = set_inserts (map lid (inputBlobsId ld)) (inputLayersId ld);
                 nw1 = nw\<lparr>layers := map_assign i (ld\<lparr>inputLayersId := parents\<rparr>) (layers nw)\<rparr>
             in case allocate_parents depth li layersShapes parents nw1 of
                  Inl e \<Rightarrow> Inl e
                | Inr nw2 \<Rightarrow> allocate_own li layersShapes i nw2))"
| "allocate_parents depth li layersShapes [] nw = Inr nw"
| "allocate_parents depth li layersShapes (p # ps) nw =
     (case allocateLayer depth li layersShapes p nw of
        Inl e \<Rightarrow> Inl e
      | Inr nw1 \<Rightarrow> allocate_parents depth li layersShapes ps nw1)"









section \<open>Allocating twice\<close>







section \<open>Streams only move forward\<close>

text \<open>\<open>later s s'\<close>: the stream \<open>s'\<close> is \<open>s\<close> after some bytes were extracted and some state
  bits were set.\<close>

definition later :: "istream \<Rightarrow> istream \<Rightarrow> bool" where
  "later s s' =
     (\<exists>k. k \<le> length (rest s) \<and> rest s' = drop k (rest s) \<and> pos s' = pos s + k \<and>
          (eofbit s \<longrightarrow> eofbit s') \<and> (failbit s \<longrightarrow> failbit s') \<and>
          (failbit s' \<longrightarrow> failbit s \<or> eofbit s'))"

lemma later_refl [simp]: "later s s"
  by (auto simp: later_def intro: exI [of _ 0])

lemma later_trans: "later s s' \<Longrightarrow> later s' s'' \<Longrightarrow> later s s''"
proof -
  assume a: "later s s'" and b: "later s' s''"
  from a obtain k where k: "k \<le> length (rest s)" "rest s' = drop k (rest s)"
    "pos s' = pos s + k" "eofbit s \<longrightarrow> eofbit s'" "failbit s \<longrightarrow> failbit s'"
    "failbit s' \<longrightarrow> failbit s \<or> eofbit s'"
    by (auto simp: later_def)
  from b obtain j where j: "j \<le> length (rest s')" "rest s'' = drop j (rest s')"
    "pos s'' = pos s' + j" "eofbit s' \<longrightarrow> eofbit s''" "failbit s' \<longrightarrow> failbit s''"
    "failbit s'' \<longrightarrow> failbit s' \<or> eofbit s''"
    by (auto simp: later_def)
  from k j have "k + j \<le> length (rest s) \<and> rest s'' = drop (k + j) (rest s) \<and>
      pos s'' = pos s + (k + j) \<and> (eofbit s \<longrightarrow> eofbit s'') \<and> (failbit s \<longrightarrow> failbit s'') \<and>
      (failbit s'' \<longrightarrow> failbit s \<or> eofbit s'')"
    by (auto simp: add.commute)
  then show ?thesis unfolding later_def by blast
qed

lemma later_weight: "later s s' \<Longrightarrow> weight s' \<le> weight s"
  by (auto simp: later_def weight_def good_def)

lemma later_good: "later s s' \<Longrightarrow> good s' \<Longrightarrow> good s"
  by (auto simp: later_def good_def)

lemma later_advance: "k \<le> length (rest s) \<Longrightarrow> later s (advance k s)"
  by (auto simp: later_def advance_def)

lemma later_good_advance:
  "later s s' \<Longrightarrow> good s' \<Longrightarrow> s' = advance (pos s' - pos s) s \<and> pos s' - pos s \<le> length (rest s)"
  by (auto simp: later_def good_def advance_def)

lemma later_istream_read: "istream_read n s = (bs, s') \<Longrightarrow> later s s'"
  by (auto simp: istream_read_def later_def good_def split: if_splits intro: exI [of _ 0])

lemma later_istream_ignore: "later s (istream_ignore n s)"
  by (auto simp: istream_ignore_def later_def good_def intro: exI [of _ 0])

lemma later_tellg: "tellg s = (p, s') \<Longrightarrow> later s s'"
  by (auto simp: tellg_def later_def good_def split: if_splits intro: exI [of _ 0])

lemma later_readBinary: "readBinary s n = Inr (bs, s') \<Longrightarrow> later s s'"
  by (auto simp: readBinary_def split: prod.splits if_splits dest: later_istream_read)

lemma later_readVarint_loop:
  "readVarint_loop k c b res s = Inr (k', c', b', res', s') \<Longrightarrow> later s s'"
proof (induction "9 - k" arbitrary: k c b res s)
  case 0
  then show ?case by (simp add: readVarint_loop.simps [of k])
next
  case (Suc n)
  show ?case
  proof (cases "k < 9 \<and> c")
    case False
    with Suc.prems show ?thesis by (simp add: readVarint_loop.simps [of k])
  next
    case True
    note enter = True
    have n: "n = 9 - Suc k" using Suc.hyps(2) by simp
    show ?thesis
    proof (cases "b AND 0x80 \<noteq> 0")
      case False
      with enter Suc.prems
      have "readVarint_loop (Suc k) False b
              (res OR push_bit (k * 7) (ucast (b AND 0x7f))) s = Inr (k', c', b', res', s')"
        by (simp add: readVarint_loop.simps [of k] Let_def)
      with Suc.hyps(1) [OF n] show ?thesis .
    next
      case True
      with enter Suc.prems obtain bs s1 where
        rd: "readBinary s 1 = Inr (bs, s1)" and ne: "bs \<noteq> []"
        by (auto simp: readVarint_loop.simps [of k] Let_def
                 split: sum.splits list.splits)
      then obtain b1 bs1 where bs: "bs = b1 # bs1" by (cases bs) auto
      from rd have w1: "later s s1" by (rule later_readBinary)
      from True enter Suc.prems rd bs
      have "readVarint_loop (Suc k) True b1
              (res OR push_bit (k * 7) (ucast (b AND 0x7f))) s1 =
            Inr (k', c', b', res', s')"
        by (simp add: readVarint_loop.simps [of k] Let_def)
      with Suc.hyps(1) [OF n] have "later s1 s'" .
      with w1 show ?thesis by (rule later_trans)
    qed
  qed
qed

lemma later_readVarint: "readVarint s n = Inr (w, k, s') \<Longrightarrow> later s s'"
  by (auto simp: readVarint_def split: if_splits sum.splits
           dest!: later_readBinary later_readVarint_loop; blast intro: later_trans)

lemma later_read_int32: "read_int32 s = Inr (n, s') \<Longrightarrow> later s s'"
  by (auto simp: read_int32_def split: sum.splits dest: later_readVarint)

lemma later_ProtoValue_read: "ProtoValue_read T v s = Inr (v', s') \<Longrightarrow> later s s'"
  by (auto simp: ProtoValue_read.simps split: sum.splits if_splits
           dest!: later_readVarint later_read_int32 later_readBinary; blast intro: later_trans)

lemma later_parseKey: "parseKey s t w = Inr (t', w', s') \<Longrightarrow> later s s'"
  by (auto simp: parseKey_def Let_def split: sum.splits if_splits dest: later_read_int32)

lemma later_skip_field: "skip_field w s = Inr s' \<Longrightarrow> later s s'"
  by (auto simp: skip_field_def split: sum.splits if_splits
           dest!: later_readVarint later_read_int32
           intro: later_istream_ignore later_trans [OF _ later_istream_ignore])

lemma later_ProtoPackImpl_loop:
  "ProtoPackImpl_loop T e s vs = Inr (vs', s') \<Longrightarrow> later s s'"
proof (induction T e s vs rule: ProtoPackImpl_loop.induct)
  case (1 T e s vs)
  obtain p s0 where tg: "tellg s = (p, s0)" by (cases "tellg s")
  then have l0: "later s s0" by (rule later_tellg)
  show ?case
  proof (cases "p < e")
    case False
    with "1.prems" tg l0 show ?thesis by (simp add: ProtoPackImpl_loop.simps [of T e s])
  next
    case True
    with "1.prems" tg obtain v s1 where
      stuck: "\<not> (p = - 1 \<or> T = TFloat \<or> T = TDouble \<or> T = TBool)" and
      rd: "ProtoValue_read T (zero_value T) s0 = Inr (v, s1)" and
      run: "ProtoPackImpl_loop T e s1 (vs @ [v]) = Inr (vs', s')"
      by (auto simp: ProtoPackImpl_loop.simps [of T e s] split: if_splits sum.splits)
    from "1.IH" [OF tg [symmetric] True stuck rd refl run] have "later s1 s'" .
    with l0 later_ProtoValue_read [OF rd] show ?thesis by (blast intro: later_trans)
  qed
qed

lemma later_ProtoPackImpl_read: "ProtoPackImpl_read T s = Inr (vs, s') \<Longrightarrow> later s s'"
  by (auto simp: ProtoPackImpl_read_def split: sum.splits if_splits prod.splits
           dest!: later_read_int32 later_readBinary later_tellg later_ProtoPackImpl_loop;
      blast intro: later_trans)

lemma later_ProtoEnum_read: "ProtoEnum_read p ev s = Inr (v, s') \<Longrightarrow> later s s'"
  by (auto simp: ProtoEnum_read_def
           split: sum.splits if_splits option.splits pvalue.splits
           dest!: later_read_int32 later_ProtoPackImpl_read)


section \<open>The readers of a message only move forward\<close>

definition readers_later :: "(int \<Rightarrow> reader option) \<Rightarrow> bool" where
  "readers_later readers =
     (\<forall>t rd. readers t = Some rd \<longrightarrow> (\<forall>s x s'. rd s = Inr (x, s') \<longrightarrow> later s s'))"

lemma readers_laterD:
  "readers_later readers \<Longrightarrow> readers t = Some rd \<Longrightarrow> rd s = Inr (x, s') \<Longrightarrow> later s s'"
  unfolding readers_later_def by blast

lemma later_ProtobufMessage_body:
  assumes "readers_later readers"
    and "ProtobufMessage_body readers m t w s = Inr (b, m', t', w', s')"
  shows "later s s'"
proof -
  from assms(2) obtain s1 where pk: "parseKey s t w = Inr (t', w', s1)"
    by (auto simp: ProtobufMessage_body_def split: sum.splits if_splits option.splits)
  then have l1: "later s s1" by (rule later_parseKey)
  show ?thesis
  proof (cases "eofbit s1")
    case True
    with assms(2) pk l1 show ?thesis by (simp add: ProtobufMessage_body_def)
  next
    case False
    note neof = False
    show ?thesis
    proof (cases "readers t'")
      case None
      with assms(2) pk neof have "skip_field w' s1 = Inr s'"
        by (auto simp: ProtobufMessage_body_def split: sum.splits)
      then have "later s1 s'" by (rule later_skip_field)
      with l1 show ?thesis by (rule later_trans)
    next
      case (Some rd)
      with assms(2) pk neof obtain copy where "rd s1 = Inr (copy, s')"
        by (auto simp: ProtobufMessage_body_def split: sum.splits)
      with assms(1) Some have "later s1 s'" by (rule readers_laterD)
      with l1 show ?thesis by (rule later_trans)
    qed
  qed
qed

lemma ProtobufMessage_body_key:
  assumes "ProtobufMessage_body readers m t w s = Inr (False, m', t', w', s')"
  shows "\<exists>s1. parseKey s t w = Inr (t', w', s1) \<and> \<not> eofbit s1 \<and>
           (case readers t' of
              Some rd \<Rightarrow> \<exists>copy. rd s1 = Inr (copy, s') \<and> m' = store_field t' copy m
            | None \<Rightarrow> skip_field w' s1 = Inr s' \<and> m' = m)"
  using assms
  by (auto simp: ProtobufMessage_body_def split: sum.splits if_splits option.splits)

lemma ProtobufMessage_body_progress:
  assumes "readers_later readers"
    and "ProtobufMessage_body readers m t w s = Inr (False, m', t', w', s')"
  shows "weight s' < weight s"
proof -
  from ProtobufMessage_body_key [OF assms(2)] obtain s1 where
    pk: "parseKey s t w = Inr (t', w', s1)" and neof: "\<not> eofbit s1" and
    rd: "case readers t' of
              Some rd \<Rightarrow> \<exists>copy. rd s1 = Inr (copy, s') \<and> m' = store_field t' copy m
            | None \<Rightarrow> skip_field w' s1 = Inr s' \<and> m' = m"
    by blast
  from pk neof have w1: "weight s1 < weight s" by (rule parseKey_progress)
  from rd assms(1) have "later s1 s'"
    by (auto split: option.splits dest: later_skip_field readers_laterD)
  then have "weight s' \<le> weight s1" by (rule later_weight)
  with w1 show ?thesis by simp
qed

text \<open>So the loop is the loop of the source.\<close>

lemma ProtobufMessage_loop_unfold:
  assumes "readers_later readers"
  shows "ProtobufMessage_loop readers m msgEnd t w s =
     (case tellg s of (p, s0) \<Rightarrow>
        if p < msgEnd then
          (case ProtobufMessage_body readers m t w s0 of
             Inl e \<Rightarrow> Inl e
           | Inr (break, m', t', w', s2) \<Rightarrow>
               if break then Inr (m', s2)
               else ProtobufMessage_loop readers m' msgEnd t' w' s2)
        else Inr (m, s0))"
  using ProtobufMessage_body_progress [OF assms]
  by (subst ProtobufMessage_loop.simps) (auto split: prod.splits sum.splits)

lemma later_ProtobufMessage_loop:
  "readers_later readers \<Longrightarrow>
   ProtobufMessage_loop readers m msgEnd t w s = Inr (m', s') \<Longrightarrow> later s s'"
proof (induction readers m msgEnd t w s rule: ProtobufMessage_loop.induct)
  case (1 readers m msgEnd tag wireType s)
  note rl = "1.prems"(1)
  obtain p s0 where tg: "tellg s = (p, s0)" by (cases "tellg s")
  then have l0: "later s s0" by (rule later_tellg)
  show ?case
  proof (cases "p < msgEnd")
    case False
    with "1.prems"(2) tg l0 show ?thesis
      by (simp add: ProtobufMessage_loop.simps [of readers m])
  next
    case True
    with "1.prems"(2) tg obtain b m1 t1 w1 s2 where
      body: "ProtobufMessage_body readers m tag wireType s0 = Inr (b, m1, t1, w1, s2)"
      by (auto simp: ProtobufMessage_loop.simps [of readers m] split: sum.splits)
    from rl body have l2: "later s0 s2" by (rule later_ProtobufMessage_body)
    show ?thesis
    proof (cases b)
      case True
      with "1.prems"(2) tg \<open>p < msgEnd\<close> body have "s' = s2"
        by (simp add: ProtobufMessage_loop.simps [of readers m])
      with l0 l2 show ?thesis by (blast intro: later_trans)
    next
      case False
      with rl body have w: "weight s2 < weight s0"
        by (auto dest: ProtobufMessage_body_progress)
      with "1.prems"(2) tg \<open>p < msgEnd\<close> body False
      have run: "ProtobufMessage_loop readers m1 msgEnd t1 w1 s2 = Inr (m', s')"
        by (simp add: ProtobufMessage_loop.simps [of readers m])
      from "1.IH" [OF tg [symmetric] \<open>p < msgEnd\<close> body refl refl refl refl False w rl run]
      have "later s2 s'" .
      with l0 l2 show ?thesis by (blast intro: later_trans)
    qed
  qed
qed

lemma later_ProtobufMessage_read_with:
  assumes "readers_later readers"
    and "ProtobufMessage_read_with readers m s = Inr (m', s')"
  shows "later s s'"
proof -
  obtain p s0 where tg: "tellg s = (p, s0)" by (cases "tellg s")
  then have l0: "later s s0" by (rule later_tellg)
  from assms(2) tg obtain E s2 m1 s3 where
    start: "(if to_int p \<noteq> 0 then
               (case read_int32 s0 of
                  Inl e \<Rightarrow> Inl e
                | Inr (numBytes, s1) \<Rightarrow>
                    (case tellg s1 of (q, s2) \<Rightarrow> Inr (to_int (to_int q + numBytes), s2)))
             else Inr (INT_MAX, s0)) = Inr (E, s2)" and
    run: "ProtobufMessage_loop readers (set_readFields [] m) E 0 0 s2 = Inr (m1, s3)" and
    fin: "s' = s3 \<or> s' = snd (tellg s3)"
    by (auto simp: ProtobufMessage_read_with_def Let_def
             split: sum.splits prod.splits if_splits)
  from start have l2: "later s0 s2"
    by (auto split: if_splits sum.splits prod.splits
             dest!: later_read_int32 later_tellg intro: later_trans)
  from assms(1) run have l3: "later s2 s3" by (rule later_ProtobufMessage_loop)
  from fin have l4: "later s3 s'"
    by (auto intro: later_tellg [of s3 "fst (tellg s3)"])
  from l0 l2 l3 l4 show ?thesis by (blast intro: later_trans)
qed

lemma map_of_readers:
  "map_of (map (\<lambda>(t, f). (t, g f)) xs) k = Some rd \<Longrightarrow> \<exists>f. (k, f) \<in> set xs \<and> rd = g f"
  by (induction xs) (auto split: if_splits)

lemma later_read_clone: "read_clone f s = Inr (x, s') \<Longrightarrow> later s s'"
proof (induction f arbitrary: s x s')
  case (ProtoValue T v)
  then show ?case by (auto split: sum.splits dest: later_ProtoValue_read)
next
  case (ProtoEnum p ev v)
  then show ?case by (auto split: sum.splits dest: later_ProtoEnum_read)
next
  case (ProtoPackImpl T vs)
  then show ?case by (auto split: sum.splits dest: later_ProtoPackImpl_read)
next
  case (ProtobufMessage rf fd fbt fbn nbt)
  have "readers_later (map_of (map (\<lambda>(t, f). (t, read_clone f)) fbt))"
    unfolding readers_later_def
  proof (intro allI impI)
    fix t rd s x s'
    assume "map_of (map (\<lambda>(t, f). (t, read_clone f)) fbt) t = Some rd"
      and r: "rd s = Inr (x, s')"
    then obtain f where f: "(t, f) \<in> set fbt" "rd = read_clone f"
      by (blast dest: map_of_readers)
    from f(1) have "f \<in> Basic_BNFs.snds (t, f)" by simp
    with ProtobufMessage.IH(3) [OF f(1)] r f(2) show "later s s'" by blast
  qed
  with ProtobufMessage.prems show ?case
    by (auto dest: later_ProtobufMessage_read_with)
qed

lemma readers_later_readers_of [simp]: "readers_later (readers_of m)"
  unfolding readers_later_def readers_of_def
  by (blast dest: map_of_readers later_read_clone)


lemma later_clean: "later s s' \<Longrightarrow> good s \<Longrightarrow> \<not> eofbit s' \<Longrightarrow> good s'"
  by (auto simp: later_def good_def)

lemma later_pos: "later s s' \<Longrightarrow> pos s \<le> pos s' \<and> pos s' + length (rest s') = pos s + length (rest s)"
  by (auto simp: later_def)

text \<open>When \<^verbatim>\<open>parseKey\<close> returns with \<^verbatim>\<open>s.eof()\<close> false it has read a key: the stream was
  and is \<^verbatim>\<open>good()\<close>, at least one byte was read, and the tag and the wire type are
  supported ones.\<close>

lemma parseKey_good:
  assumes "parseKey s t w = Inr (t', w', s1)" "\<not> eofbit s1"
  shows "good s \<and> good s1 \<and> pos s < pos s1 \<and> 0 < t' \<and> (w' = 0 \<or> w' = 1 \<or> w' = 2 \<or> w' = 5)"
proof -
  have g: "good s"
  proof (rule ccontr)
    assume "\<not> good s"
    then have "readVarint s 4 = Inr (0, 0, s\<lparr>failbit := True\<rparr>)"
      by (simp add: readVarint_def readBinary_bad readVarint_loop.simps [of 0])
    with assms show False
      by (auto simp: parseKey_def read_int32_def Let_def split: sum.splits if_splits)
  qed
  from assms(1) have l: "later s s1" by (rule later_parseKey)
  from l g assms(2) have g1: "good s1" by (rule later_clean)
  from assms have "weight s1 < weight s" by (rule parseKey_progress)
  with l g g1 have "pos s < pos s1"
    by (auto simp: later_def weight_def)
  moreover from assms have "0 < t' \<and> (w' = 0 \<or> w' = 1 \<or> w' = 2 \<or> w' = 5)"
    by (auto simp: parseKey_def Let_def split: sum.splits if_splits)
  ultimately show ?thesis using g g1 by simp
qed

section \<open>Reads that the model cuts short\<close>

text \<open>On a stream that has failed, \<^verbatim>\<open>ProtoValue<T>::read\<close> reads nothing and raises nothing.\<close>

lemma readVarint_bad:
  "\<not> good s \<Longrightarrow> 0 \<le> n \<Longrightarrow> n \<le> 8 \<Longrightarrow> readVarint s n = Inr (0, 0, s\<lparr>failbit := True\<rparr>)"
  by (simp add: readVarint_def readBinary_bad readVarint_loop.simps [of 0])

lemma ProtoValue_read_failed:
  assumes "\<not> good s"
  shows "\<exists>v'. ProtoValue_read T v s = Inr (v', s\<lparr>failbit := True\<rparr>)"
  using assms
  by (cases T)
     (simp_all add: ProtoValue_read.simps [of _ v s] readVarint_bad readBinary_bad
                    read_int32_def)

text \<open>
  The loop of \<^verbatim>\<open>ProtobufMessage::read\<close> never stops with \<open>OutOfFuel\<close>: no read of the
  binary format gives that value.
\<close>

lemma readBinary_fuel: "readBinary s n \<noteq> Inl OutOfFuel"
  by (auto simp: readBinary_def split: prod.splits)

lemma readVarint_loop_fuel: "readVarint_loop k c b res s \<noteq> Inl OutOfFuel"
proof (induction "9 - k" arbitrary: k c b res s)
  case 0
  then show ?case by (simp add: readVarint_loop.simps [of k])
next
  case (Suc n)
  have n: "n = 9 - Suc k" using Suc.hyps(2) by simp
  show ?case
    by (auto simp: readVarint_loop.simps [of k] Let_def Suc.hyps(1) [OF n] readBinary_fuel
             split: sum.splits list.splits)
qed

lemma readVarint_fuel: "readVarint s n \<noteq> Inl OutOfFuel"
  by (auto simp: readVarint_def readBinary_fuel readVarint_loop_fuel split: sum.splits)

lemma read_int32_fuel: "read_int32 s \<noteq> Inl OutOfFuel"
  by (auto simp: read_int32_def readVarint_fuel split: sum.splits)

lemma ProtoValue_read_fuel: "ProtoValue_read T v s \<noteq> Inl OutOfFuel"
  by (cases T)
     (auto simp: ProtoValue_read.simps [of _ v s] readVarint_fuel readBinary_fuel
                 read_int32_fuel
           split: sum.splits)

lemma parseKey_fuel: "parseKey s t w \<noteq> Inl OutOfFuel"
  by (auto simp: parseKey_def Let_def read_int32_fuel split: sum.splits)

lemma skip_field_fuel: "skip_field w s \<noteq> Inl OutOfFuel"
  by (auto simp: skip_field_def read_int32_fuel readVarint_fuel split: sum.splits)

lemma ProtoPackImpl_loop_fuel: "ProtoPackImpl_loop T e s vs \<noteq> Inl OutOfFuel"
proof (induction T e s vs rule: ProtoPackImpl_loop.induct)
  case (1 T e s vs)
  obtain p s0 where tg: "tellg s = (p, s0)" by (cases "tellg s")
  show ?case
  proof (cases "p < e \<and> \<not> (p = - 1 \<or> T = TFloat \<or> T = TDouble \<or> T = TBool)")
    case False
    with tg show ?thesis by (auto simp: ProtoPackImpl_loop.simps [of T e s])
  next
    case True
    show ?thesis
    proof (cases "ProtoValue_read T (zero_value T) s0")
      case (Inl err)
      with True tg ProtoValue_read_fuel [of T "zero_value T" s0] show ?thesis
        by (auto simp: ProtoPackImpl_loop.simps [of T e s])
    next
      case (Inr r)
      obtain v s1 where r: "r = (v, s1)" by (cases r)
      from True have a: "p < e" and b: "\<not> (p = - 1 \<or> T = TFloat \<or> T = TDouble \<or> T = TBool)"
        by simp_all
      from "1.IH" [OF tg [symmetric] a b Inr [unfolded r] refl] True tg Inr r show ?thesis
        by (auto simp: ProtoPackImpl_loop.simps [of T e s])
    qed
  qed
qed

lemma ProtoPackImpl_read_fuel: "ProtoPackImpl_read T s \<noteq> Inl OutOfFuel"
proof (cases "read_int32 s")
  case (Inl e)
  with read_int32_fuel [of s] show ?thesis by (simp add: ProtoPackImpl_read_def)
next
  case (Inr r)
  obtain numBytes s1 where r: "r = (numBytes, s1)" by (cases r)
  show ?thesis
  proof (cases "T = TFloat \<or> T = TDouble \<or> T = TBool")
    case True
    with Inr r show ?thesis
      by (cases "readBinary s1 numBytes")
         (auto simp: ProtoPackImpl_read_def readBinary_fuel split: if_splits)
  next
    case False
    obtain p s2 where tg: "tellg s1 = (p, s2)" by (cases "tellg s1")
    from False Inr r tg show ?thesis
      by (cases "ProtoPackImpl_loop T (to_int (to_int p + numBytes)) s2 []")
         (auto simp: ProtoPackImpl_read_def ProtoPackImpl_loop_fuel split: prod.splits)
  qed
qed

lemma ProtoEnum_read_fuel: "ProtoEnum_read p ev s \<noteq> Inl OutOfFuel"
  by (auto simp: ProtoEnum_read_def read_int32_fuel ProtoPackImpl_read_fuel
           split: sum.splits option.splits pvalue.splits if_splits)

definition readers_fuel :: "(int \<Rightarrow> reader option) \<Rightarrow> bool" where
  "readers_fuel readers = (\<forall>t rd. readers t = Some rd \<longrightarrow> (\<forall>s. rd s \<noteq> Inl OutOfFuel))"

lemma ProtobufMessage_body_fuel:
  "readers_fuel readers \<Longrightarrow> ProtobufMessage_body readers m t w s \<noteq> Inl OutOfFuel"
  by (auto simp: ProtobufMessage_body_def readers_fuel_def parseKey_fuel skip_field_fuel
           split: sum.splits option.splits)

lemma ProtobufMessage_loop_fuel:
  "readers_later readers \<Longrightarrow> readers_fuel readers \<Longrightarrow>
   ProtobufMessage_loop readers m E t w s \<noteq> Inl OutOfFuel"
proof (induction readers m E t w s rule: ProtobufMessage_loop.induct)
  case (1 readers m E tag wireType s)
  note rl = "1.prems"(1) and rf = "1.prems"(2)
  obtain p s0 where tg: "tellg s = (p, s0)" by (cases "tellg s")
  show ?case
  proof (cases "p < E")
    case False
    with tg show ?thesis by (simp add: ProtobufMessage_loop_unfold [OF rl])
  next
    case True
    show ?thesis
    proof (cases "ProtobufMessage_body readers m tag wireType s0")
      case (Inl e)
      with ProtobufMessage_body_fuel [OF rf, of m tag wireType s0] True tg show ?thesis
        by (simp add: ProtobufMessage_loop_unfold [OF rl])
    next
      case (Inr r)
      obtain b m1 t1 w1 s2 where r: "r = (b, m1, t1, w1, s2)" by (cases r)
      note body = Inr [unfolded r]
      show ?thesis
      proof (cases b)
        case True
        with \<open>p < E\<close> tg body show ?thesis
          by (simp add: ProtobufMessage_loop_unfold [OF rl])
      next
        case False
        with rl body have wt: "weight s2 < weight s0"
          by (auto dest: ProtobufMessage_body_progress)
        from "1.IH" [OF tg [symmetric] True body refl refl refl refl False wt rl rf]
          \<open>p < E\<close> tg body False
        show ?thesis by (simp add: ProtobufMessage_loop_unfold [OF rl])
      qed
    qed
  qed
qed

lemma ProtobufMessage_read_with_fuel:
  "readers_later readers \<Longrightarrow> readers_fuel readers \<Longrightarrow>
   ProtobufMessage_read_with readers m s \<noteq> Inl OutOfFuel"
  by (auto simp: ProtobufMessage_read_with_def Let_def read_int32_fuel
                 ProtobufMessage_loop_fuel
           split: sum.splits prod.splits if_splits)

lemma read_clone_fuel: "read_clone f s \<noteq> Inl OutOfFuel"
proof (induction f arbitrary: s)
  case (ProtoValue T v)
  show ?case by (auto simp: ProtoValue_read_fuel split: sum.splits)
next
  case (ProtoEnum p ev v)
  show ?case by (auto simp: ProtoEnum_read_fuel split: sum.splits)
next
  case (ProtoPackImpl T vs)
  show ?case by (auto simp: ProtoPackImpl_read_fuel split: sum.splits)
next
  case (ProtobufMessage rf fd fbt fbn nbt)
  let ?readers = "map_of (map (\<lambda>(t, f). (t, read_clone f)) fbt)"
  have rl: "readers_later ?readers"
    unfolding readers_later_def by (blast dest: map_of_readers later_read_clone)
  have rfu: "readers_fuel ?readers"
    unfolding readers_fuel_def
  proof (intro allI impI)
    fix t rd s
    assume "?readers t = Some rd"
    then obtain f where f: "(t, f) \<in> set fbt" "rd = read_clone f"
      by (blast dest: map_of_readers)
    from f(1) have "f \<in> Basic_BNFs.snds (t, f)" by simp
    from ProtobufMessage.IH(3) [OF f(1) this, of s] f(2)
    show "rd s \<noteq> Inl OutOfFuel" by simp
  qed
  from ProtobufMessage_read_with_fuel [OF rl rfu] show ?case by simp
qed

lemma readers_fuel_readers_of [simp]: "readers_fuel (readers_of m)"
  unfolding readers_fuel_def readers_of_def
  by (auto dest!: map_of_readers simp: read_clone_fuel)

lemma ProtobufMessage_read_fuel: "ProtobufMessage_read m s \<noteq> Inl OutOfFuel"
  unfolding ProtobufMessage_read_def
  by (rule ProtobufMessage_read_with_fuel) simp_all

section \<open>A field with no prototype\<close>

text \<open>The five bytes \<open>80 80 80 80 08\<close> are the varint \<open>2^31\<close>: the key of the tag \<open>2^28\<close> with
  wire type 0. \<^verbatim>\<open>parseKey\<close> keeps the key in an \<^verbatim>\<open>int\<close>, where it is \<open>-2^31\<close>, so the tag comes
  out as \<open>-2^28\<close> and is refused.\<close>

lemma read_int32_2_31:
  "read_int32 (istream_of (0x80 # 0x80 # 0x80 # 0x80 # 0x08 # bs)) =
     Inr (- 2147483648, advance 5 (istream_of (0x80 # 0x80 # 0x80 # 0x80 # 0x08 # bs)))"
proof -
  let ?s = "istream_of (0x80 # 0x80 # 0x80 # 0x80 # 0x08 # bs)"
  have g: "good ?s" by (simp add: istream_of_def good_def)
  have r: "rest ?s = [0x80, 0x80, 0x80, 0x80] @ 0x08 # bs" by (simp add: istream_of_def)
  have "readVarint ?s 8 =
          Inr (varint_bits 0 ([0x80, 0x80, 0x80, 0x80] @ [0x08]),
               length [0x80, 0x80, 0x80, 0x80 :: byte] + 1,
               advance (length [0x80, 0x80, 0x80, 0x80 :: byte] + 1) ?s)"
    using g r by (rule readVarint_terminated) simp_all
  moreover have "length [0x80, 0x80, 0x80, 0x80 :: byte] + 1 = 5" by simp
  moreover have "[0x80, 0x80, 0x80, 0x80] @ [0x08 :: byte] = [0x80, 0x80, 0x80, 0x80, 0x08]"
    by simp
  ultimately have v8: "readVarint ?s 8 =
                   Inr (varint_bits 0 [0x80, 0x80, 0x80, 0x80, 0x08], 5, advance 5 ?s)"
    by (simp only:)
  have v4: "readVarint ?s 4 =
              Inr (take_bit 32 (varint_bits 0 [0x80, 0x80, 0x80, 0x80, 0x08]), 5, advance 5 ?s)"
    by (simp add: readVarint_width [of 4 ?s] v8)
  have "sint (ucast (take_bit 32 (varint_bits 0 [0x80, 0x80, 0x80, 0x80, 0x08]))
                   :: 32 word) = - 2147483648"
    by code_simp
  with v4 show ?thesis by (simp only: read_int32_def sum.case prod.case)
qed

lemma parseKey_tag_2_28:
  "parseKey (istream_of (0x80 # 0x80 # 0x80 # 0x80 # 0x08 # bs)) t w =
     Inl (StsParseError ''Unsupported tag value'')"
proof -
  have "\<not> eofbit (istream_of (0x80 # 0x80 # 0x80 # 0x80 # 0x08 # bs))"
    by (simp add: istream_of_def)
  then show ?thesis by (simp add: parseKey_def read_int32_2_31)
qed

lemma ProtobufMessage_read_tag_2_28:
  "ProtobufMessage_read M (istream_of (0x80 # 0x80 # 0x80 # 0x80 # 0x08 # bs)) =
     Inl (StsParseError ''Unsupported tag value'')"
proof -
  let ?s = "istream_of (0x80 # 0x80 # 0x80 # 0x80 # 0x08 # bs)"
  have tg: "tellg ?s = (0, ?s)" by (simp add: tellg_def istream_of_def good_def)
  have "ProtobufMessage_body (readers_of M) (set_readFields [] M) 0 0 ?s =
          Inl (StsParseError ''Unsupported tag value'')"
    by (simp only: ProtobufMessage_body_def parseKey_tag_2_28 sum.case)
  with tg have "ProtobufMessage_loop (readers_of M) (set_readFields [] M) INT_MAX 0 0 ?s =
          Inl (StsParseError ''Unsupported tag value'')"
    by (subst ProtobufMessage_loop.simps) (simp add: INT_MAX_def)
  with tg show ?thesis
    by (simp add: ProtobufMessage_read_def ProtobufMessage_read_with_def to_int_def)
qed

text \<open>
  C1 at the input where the code leaves it: a field whose tag is \<open>2^28\<close>, a tag the wire
  format allows. Whatever the message \<open>M\<close> and whatever follows the key, the parse of an
  input that starts with the key \<open>80 80 80 80 08\<close> fails with the parse error
  "Unsupported tag value"; the field is not skipped. So with the message \<open>{int32 x = 1}\<close>,
  which has no such field, the field with the payload \<open>00\<close> in front of \<open>08 96 01\<close> makes
  the parse fail, where \<open>08 96 01\<close> alone gives \<open>x = 150\<close>. A field with the tag 9, which
  the message has not either, is skipped as the claim says, for each wire type: \<open>48 00\<close>
  (a varint), \<open>49\<close> and 8 bytes, \<open>4A 02\<close> and 2 bytes, \<open>4D\<close> and 4 bytes all leave \<open>x = 150\<close>.
\<close>

theorem C1_unknown_tag_from_2_28_is_refused:
  "ProtobufMessage_read M (istream_of ([0x80, 0x80, 0x80, 0x80, 0x08] @ bs)) =
     Inl (StsParseError ''Unsupported tag value'') \<and>
   ProtobufMessage_read M1 (istream_of [0x80, 0x80, 0x80, 0x80, 0x08, 0x00, 0x08, 0x96, 0x01]) =
     Inl (StsParseError ''Unsupported tag value'') \<and>
   ProtobufMessage_read M1 (istream_of [0x08, 0x96, 0x01]) =
     Inr (set_readFields [(''x'', [ProtoValue TInt32 (VInt32 150)])] M1,
          \<lparr>rest = [], pos = 3, eofbit = True, failbit = True\<rparr>) \<and>
   ProtobufMessage_read M1 (istream_of [0x48, 0x00, 0x08, 0x96, 0x01]) =
     Inr (set_readFields [(''x'', [ProtoValue TInt32 (VInt32 150)])] M1,
          \<lparr>rest = [], pos = 5, eofbit = True, failbit = True\<rparr>) \<and>
   ProtobufMessage_read M1
     (istream_of [0x49, 0x01, 0x02, 0x03, 0x04, 0x05, 0x06, 0x07, 0x08, 0x08, 0x96, 0x01]) =
     Inr (set_readFields [(''x'', [ProtoValue TInt32 (VInt32 150)])] M1,
          \<lparr>rest = [], pos = 12, eofbit = True, failbit = True\<rparr>) \<and>
   ProtobufMessage_read M1 (istream_of [0x4A, 0x02, 0x00, 0x00, 0x08, 0x96, 0x01]) =
     Inr (set_readFields [(''x'', [ProtoValue TInt32 (VInt32 150)])] M1,
          \<lparr>rest = [], pos = 7, eofbit = True, failbit = True\<rparr>) \<and>
   ProtobufMessage_read M1 (istream_of [0x4D, 0x01, 0x02, 0x03, 0x04, 0x08, 0x96, 0x01]) =
     Inr (set_readFields [(''x'', [ProtoValue TInt32 (VInt32 150)])] M1,
          \<lparr>rest = [], pos = 8, eofbit = True, failbit = True\<rparr>)"
proof (intro conjI)
  show "ProtobufMessage_read M (istream_of ([0x80, 0x80, 0x80, 0x80, 0x08] @ bs)) =
          Inl (StsParseError ''Unsupported tag value'')"
    by (simp add: ProtobufMessage_read_tag_2_28)
qed code_simp+

end
